theory Spec2Isabelle
  imports Main "HOL-Library.AList"
begin

section \<open>Text\<close>

text \<open>
  A Python \<open>str\<close> is a sequence of code points. The embedding uses \<^typ>\<open>string\<close>, so a
  character is a code point below 256, and the character classes below are the ones
  Python 3 uses on that range: \<open>str.isspace\<close> (which is also \<open>\s\<close> of the \<open>re\<close> module
  and the separator set of \<open>str.strip()\<close> and \<open>str.split(None)\<close>), the class \<open>\w\<close>
  (alphanumeric or underscore), \<open>str.upper\<close> and \<open>str.lower\<close>.
\<close>

definition is_space :: "char \<Rightarrow> bool" where
  "is_space c =
     (let n = (of_char c :: nat)
      in (9 \<le> n \<and> n \<le> 13) \<or> (28 \<le> n \<and> n \<le> 32) \<or> n = 133 \<or> n = 160)"

definition is_word :: "char \<Rightarrow> bool" where
  "is_word c =
     (let n = (of_char c :: nat)
      in (48 \<le> n \<and> n \<le> 57) \<or> (65 \<le> n \<and> n \<le> 90) \<or> n = 95 \<or> (97 \<le> n \<and> n \<le> 122)
         \<or> n = 170 \<or> n = 178 \<or> n = 179 \<or> n = 181 \<or> n = 185 \<or> n = 186
         \<or> (188 \<le> n \<and> n \<le> 190) \<or> (192 \<le> n \<and> n \<le> 214) \<or> (216 \<le> n \<and> n \<le> 246)
         \<or> 248 \<le> n)"

text \<open>
  \<open>str.upper\<close> leaves the range for two characters (U+00B5 becomes U+039C, U+00FF becomes
  U+0178) and lengthens the text for one (U+00DF becomes \<open>SS\<close>), so its result is a list
  of code points.
\<close>

definition upper_char :: "char \<Rightarrow> nat list" where
  "upper_char c =
     (let n = (of_char c :: nat)
      in if 97 \<le> n \<and> n \<le> 122 then [n - 32]
         else if n = 181 then [924]
         else if n = 223 then [83, 83]
         else if 224 \<le> n \<and> n \<le> 254 \<and> n \<noteq> 247 then [n - 32]
         else if n = 255 then [376]
         else [n])"

definition py_upper :: "string \<Rightarrow> nat list" where
  "py_upper s = concat (map upper_char s)"

definition code_points :: "string \<Rightarrow> nat list" where
  "code_points s = map of_char s"

definition lower_char :: "char \<Rightarrow> char" where
  "lower_char c =
     (let n = (of_char c :: nat)
      in if (65 \<le> n \<and> n \<le> 90) \<or> (192 \<le> n \<and> n \<le> 222 \<and> n \<noteq> 215) then char_of (n + 32)
         else c)"

definition py_lower :: "string \<Rightarrow> string" where
  "py_lower s = map lower_char s"

definition startswith :: "'a list \<Rightarrow> 'a list \<Rightarrow> bool" where
  "startswith s prefix = (take (length prefix) s = prefix)"

definition strip :: "string \<Rightarrow> string" where
  "strip s = rev (dropWhile is_space (rev (dropWhile is_space s)))"

text \<open>\<open>s.split(sep)\<close> for a one-character separator: every occurrence splits.\<close>

function split_on :: "char \<Rightarrow> string \<Rightarrow> string list" where
  "split_on sep s =
     (case dropWhile (\<lambda>c. c \<noteq> sep) s of
        [] \<Rightarrow> [s]
      | _ # r \<Rightarrow> takeWhile (\<lambda>c. c \<noteq> sep) s # split_on sep r)"
  by pat_completeness auto
termination
proof (relation "measure (\<lambda>(sep, s). length s)")
  show "wf (measure (\<lambda>(sep, s). length s))" by simp
next
  fix sep :: char and s :: string and x r
  assume "dropWhile (\<lambda>c. c \<noteq> sep) s = x # r"
  then have "Suc (length r) = length (dropWhile (\<lambda>c. c \<noteq> sep) s)" by simp
  also have "\<dots> \<le> length s" by (rule length_dropWhile_le)
  finally show "((sep, r), (sep, s)) \<in> measure (\<lambda>(sep, s). length s)" by simp
qed

text \<open>
  \<open>s.split(None, 1)\<close>: leading whitespace is skipped; the first piece runs to the next
  whitespace character; the whitespace after it is skipped and what is left, if anything,
  is the second piece (its own whitespace untouched).
\<close>

definition split_ws1 :: "string \<Rightarrow> string list" where
  "split_ws1 s =
     (let s1 = dropWhile is_space s
      in if s1 = [] then []
         else let piece = takeWhile (\<lambda>c. \<not> is_space c) s1;
                  remainder = dropWhile is_space (dropWhile (\<lambda>c. \<not> is_space c) s1)
              in if remainder = [] then [piece] else [piece, remainder])"

section \<open>Regular expressions\<close>

text \<open>
  The three patterns of \<open>parse_sql_schema\<close> use literals, the classes \<open>\s\<close>, \<open>\w\<close> and
  \<open>.\<close>, the greedy quantifiers \<open>+\<close> and \<open>*\<close> and the lazy \<open>*?\<close> on a single character
  class, and capture groups. A pattern is the list of its nodes; \<open>match_here\<close> is the
  backtracking matcher of \<open>re\<close>: a quantifier tries its candidate lengths in priority
  order (longest first when greedy, shortest first when lazy) and takes the first one
  for which the rest of the pattern matches.
\<close>

datatype flag = IGNORECASE | DOTALL

datatype atom = Lit char | Space | Word | Dot

datatype node = One atom | Plus atom | Star atom | LazyStar atom | GroupOpen | GroupClose

fun atom_matches :: "flag set \<Rightarrow> atom \<Rightarrow> char \<Rightarrow> bool" where
  "atom_matches fl (Lit x) c = (if IGNORECASE \<in> fl then lower_char c = lower_char x else c = x)"
| "atom_matches fl Space c = is_space c"
| "atom_matches fl Word c = is_word c"
| "atom_matches fl Dot c = (DOTALL \<in> fl \<or> c \<noteq> CHR 0x0A)"

definition run_length :: "flag set \<Rightarrow> atom \<Rightarrow> string \<Rightarrow> nat" where
  "run_length fl a s = length (takeWhile (atom_matches fl a) s)"

fun try_each :: "(nat \<Rightarrow> 'a option) \<Rightarrow> nat list \<Rightarrow> 'a option" where
  "try_each f [] = None"
| "try_each f (k # ks) = (case f k of Some m \<Rightarrow> Some m | None \<Rightarrow> try_each f ks)"

text \<open>
  A match is the list of the captured groups (group 1 first) and the text after the
  match. \<open>opens\<close> is the stack of the positions (as remaining text) where the groups
  still open began.
\<close>

type_synonym re_match = "string list \<times> string"

fun match_here :: "flag set \<Rightarrow> node list \<Rightarrow> string list \<Rightarrow> string list \<Rightarrow> string \<Rightarrow> re_match option" where
  "match_here fl [] opens caps s = Some (caps, s)"
| "match_here fl (One a # p) opens caps s =
     (case s of
        [] \<Rightarrow> None
      | c # cs \<Rightarrow> if atom_matches fl a c then match_here fl p opens caps cs else None)"
| "match_here fl (Plus a # p) opens caps s =
     try_each (\<lambda>k. match_here fl p opens caps (drop k s)) (rev [1..<Suc (run_length fl a s)])"
| "match_here fl (Star a # p) opens caps s =
     try_each (\<lambda>k. match_here fl p opens caps (drop k s)) (rev [0..<Suc (run_length fl a s)])"
| "match_here fl (LazyStar a # p) opens caps s =
     try_each (\<lambda>k. match_here fl p opens caps (drop k s)) [0..<Suc (run_length fl a s)]"
| "match_here fl (GroupOpen # p) opens caps s = match_here fl p (s # opens) caps s"
| "match_here fl (GroupClose # p) opens caps s =
     (case opens of
        [] \<Rightarrow> None
      | s0 # opens' \<Rightarrow> match_here fl p opens' (caps @ [take (length s0 - length s) s0]) s)"

text \<open>\<open>re.search\<close>: the first start position, from the left, where the pattern matches.\<close>

definition re_search :: "flag set \<Rightarrow> node list \<Rightarrow> string \<Rightarrow> re_match option" where
  "re_search fl p s = try_each (\<lambda>i. match_here fl p [] [] (drop i s)) [0..<Suc (length s)]"

text \<open>
  \<open>re.finditer\<close>: the matches from left to right, each search starting where the match
  before ended. The guard is the termination argument; a match that consumed nothing
  would end the scan here, and no pattern of this program has one.
\<close>

function re_finditer :: "flag set \<Rightarrow> node list \<Rightarrow> string \<Rightarrow> re_match list" where
  "re_finditer fl p s =
     (case re_search fl p s of
        None \<Rightarrow> []
      | Some m \<Rightarrow> m # (if length (snd m) < length s then re_finditer fl p (snd m) else []))"
  by pat_completeness auto
termination
  by (relation "measure (\<lambda>(fl, p, s). length s)") auto

definition lits :: "string \<Rightarrow> node list" where
  "lits s = map (\<lambda>c. One (Lit c)) s"

text \<open>\<^verbatim>\<open>CREATE\s+TABLE\s+(\w+)\s*\((.*?)\);\<close>\<close>

definition create_table_pattern :: "node list" where
  "create_table_pattern =
     lits ''CREATE'' @ [Plus Space] @ lits ''TABLE'' @ [Plus Space]
     @ [GroupOpen, Plus Word, GroupClose] @ [Star Space] @ lits ''(''
     @ [GroupOpen, LazyStar Dot, GroupClose] @ lits '');''"

text \<open>\<^verbatim>\<open>PRIMARY\s+KEY\s*\((\w+)\)\<close>\<close>

definition primary_key_pattern :: "node list" where
  "primary_key_pattern =
     lits ''PRIMARY'' @ [Plus Space] @ lits ''KEY'' @ [Star Space] @ lits ''(''
     @ [GroupOpen, Plus Word, GroupClose] @ lits '')''"

text \<open>\<^verbatim>\<open>FOREIGN\s+KEY\s*\((\w+)\)\s+REFERENCES\s+(\w+)\s*\((\w+)\)\<close>\<close>

definition foreign_key_pattern :: "node list" where
  "foreign_key_pattern =
     lits ''FOREIGN'' @ [Plus Space] @ lits ''KEY'' @ [Star Space] @ lits ''(''
     @ [GroupOpen, Plus Word, GroupClose] @ lits '')'' @ [Plus Space]
     @ lits ''REFERENCES'' @ [Plus Space] @ [GroupOpen, Plus Word, GroupClose]
     @ [Star Space] @ lits ''('' @ [GroupOpen, Plus Word, GroupClose] @ lits '')''"

section \<open>Python values\<close>

text \<open>
  A schema is what \<open>json.load\<close> or \<open>yaml.safe_load\<close> returns, or what the extractor
  builds: nested dictionaries, lists and scalars (floating-point numbers are left out).
  A dictionary is the list of its items in insertion order; assigning to a key that is
  present replaces the value in place, assigning to a new key appends
  (\<^const>\<open>AList.update\<close>).
\<close>

datatype pyval =
    PNone
  | PBool bool
  | PInt int
  | PStr string
  | PList "pyval list"
  | PDict "(pyval \<times> pyval) list"

datatype py_error =
    KeyError
  | TypeError
  | AttributeError
  | IndexError
  | FileNotFoundError string
  | ValueError string
  | DecodeError string

definition py_bind :: "py_error + 'a \<Rightarrow> ('a \<Rightarrow> py_error + 'b) \<Rightarrow> py_error + 'b" where
  "py_bind m f = (case m of Inl e \<Rightarrow> Inl e | Inr v \<Rightarrow> f v)"

text \<open>\<open>obj[key]\<close>, \<open>obj[key] = v\<close> and \<open>obj.append(v)\<close> with a string key.\<close>

definition getitem :: "pyval \<Rightarrow> string \<Rightarrow> py_error + pyval" where
  "getitem obj key =
     (case obj of
        PDict items \<Rightarrow> (case map_of items (PStr key) of None \<Rightarrow> Inl KeyError | Some v \<Rightarrow> Inr v)
      | _ \<Rightarrow> Inl TypeError)"

definition setitem :: "pyval \<Rightarrow> string \<Rightarrow> pyval \<Rightarrow> py_error + pyval" where
  "setitem obj key v =
     (case obj of
        PDict items \<Rightarrow> Inr (PDict (AList.update (PStr key) v items))
      | _ \<Rightarrow> Inl TypeError)"

definition py_append :: "pyval \<Rightarrow> pyval \<Rightarrow> py_error + pyval" where
  "py_append obj v = (case obj of PList xs \<Rightarrow> Inr (PList (xs @ [v])) | _ \<Rightarrow> Inl AttributeError)"

text \<open>Truthiness, \<open>obj.items()\<close> and iteration (\<open>for x in obj\<close>).\<close>

fun truthy :: "pyval \<Rightarrow> bool" where
  "truthy PNone = False"
| "truthy (PBool b) = b"
| "truthy (PInt i) = (i \<noteq> 0)"
| "truthy (PStr s) = (s \<noteq> [])"
| "truthy (PList xs) = (xs \<noteq> [])"
| "truthy (PDict items) = (items \<noteq> [])"

definition py_items :: "pyval \<Rightarrow> py_error + (pyval \<times> pyval) list" where
  "py_items obj = (case obj of PDict items \<Rightarrow> Inr items | _ \<Rightarrow> Inl AttributeError)"

definition py_iter :: "pyval \<Rightarrow> py_error + pyval list" where
  "py_iter obj =
     (case obj of
        PList xs \<Rightarrow> Inr xs
      | PStr s \<Rightarrow> Inr (map (\<lambda>c. PStr [c]) s)
      | PDict items \<Rightarrow> Inr (map fst items)
      | _ \<Rightarrow> Inl TypeError)"

text \<open>
  \<open>str(v)\<close>, which is what an f-string field \<open>{v}\<close> inserts: a string as it is, any other
  value as its \<open>repr\<close>. \<open>repr\<close> of a string quotes it (with double quotes when it has a
  single quote and no double quote) and escapes the quote, the backslash and the
  characters that are not printable.
\<close>

fun digits :: "nat \<Rightarrow> string" where
  "digits n = (if n < 10 then [char_of (48 + n)] else digits (n div 10) @ [char_of (48 + n mod 10)])"

definition int_repr :: "int \<Rightarrow> string" where
  "int_repr i = (if i < 0 then ''-'' @ digits (nat (- i)) else digits (nat i))"

definition hex_digit :: "nat \<Rightarrow> char" where
  "hex_digit d = (if d < 10 then char_of (48 + d) else char_of (87 + d))"

definition escape_char :: "char \<Rightarrow> char \<Rightarrow> string" where
  "escape_char quote c =
     (let n = (of_char c :: nat)
      in if c = quote \<or> c = CHR 0x5C then [CHR 0x5C, c]
         else if n = 9 then [CHR 0x5C, CHR ''t'']
         else if n = 10 then [CHR 0x5C, CHR ''n'']
         else if n = 13 then [CHR 0x5C, CHR ''r'']
         else if n < 32 \<or> (127 \<le> n \<and> n \<le> 160) \<or> n = 173
           then [CHR 0x5C, CHR ''x'', hex_digit (n div 16), hex_digit (n mod 16)]
         else [c])"

definition str_repr :: "string \<Rightarrow> string" where
  "str_repr s =
     (let quote = (if CHR 0x27 \<in> set s \<and> CHR 0x22 \<notin> set s then CHR 0x22 else CHR 0x27)
      in [quote] @ concat (map (escape_char quote) s) @ [quote])"

fun join :: "string \<Rightarrow> string list \<Rightarrow> string" where
  "join sep [] = []"
| "join sep [x] = x"
| "join sep (x # y # ys) = x @ sep @ join sep (y # ys)"

fun py_repr :: "pyval \<Rightarrow> string" where
  "py_repr PNone = ''None''"
| "py_repr (PBool b) = (if b then ''True'' else ''False'')"
| "py_repr (PInt i) = int_repr i"
| "py_repr (PStr s) = str_repr s"
| "py_repr (PList xs) = ''['' @ join '', '' (map py_repr xs) @ '']''"
| "py_repr (PDict items) =
     ''{'' @ join '', '' (map (\<lambda>(k, v). py_repr k @ '': '' @ py_repr v) items) @ ''}''"

definition py_str :: "pyval \<Rightarrow> string" where
  "py_str v = (case v of PStr s \<Rightarrow> s | _ \<Rightarrow> py_repr v)"

section \<open>The schema extractor\<close>

text \<open>
  The dictionary literal every table starts from. \<open>table_info\<close> gives such a dictionary
  with its three values.
\<close>

definition table_info :: "(pyval \<times> pyval) list \<Rightarrow> pyval \<Rightarrow> pyval list \<Rightarrow> pyval" where
  "table_info columns primary_key foreign_keys =
     PDict [(PStr ''columns'', PDict columns),
            (PStr ''primary_key'', primary_key),
            (PStr ''foreign_keys'', PList foreign_keys)]"

text \<open>\<open>m.group(i)\<close>; every group of the three patterns takes part in every match.\<close>

definition match_group :: "re_match \<Rightarrow> nat \<Rightarrow> py_error + string" where
  "match_group m i = (if 1 \<le> i \<and> i \<le> length (fst m) then Inr (fst m ! (i - 1)) else Inl IndexError)"

text \<open>
  The three statements that change the schema. The inner dictionary is shared with the
  schema, so the model writes the changed value back under the same key, which keeps
  its place.
  \<^item> \<open>schema[table_name][field] = v\<close>
  \<^item> \<open>schema[table_name]["columns"][col_name] = col_type\<close>
  \<^item> \<open>schema[table_name]["foreign_keys"].append(fk_str)\<close>
\<close>

definition set_field :: "pyval \<Rightarrow> string \<Rightarrow> string \<Rightarrow> pyval \<Rightarrow> py_error + pyval" where
  "set_field schema table_name field v =
     py_bind (getitem schema table_name) (\<lambda>info.
     py_bind (setitem info field v) (\<lambda>info'.
     setitem schema table_name info'))"

definition set_column :: "pyval \<Rightarrow> string \<Rightarrow> string \<Rightarrow> string \<Rightarrow> py_error + pyval" where
  "set_column schema table_name col_name col_type =
     py_bind (getitem schema table_name) (\<lambda>info.
     py_bind (getitem info ''columns'') (\<lambda>columns.
     py_bind (setitem columns col_name (PStr col_type)) (\<lambda>columns'.
     py_bind (setitem info ''columns'' columns') (\<lambda>info'.
     setitem schema table_name info'))))"

definition append_foreign_key :: "pyval \<Rightarrow> string \<Rightarrow> string \<Rightarrow> py_error + pyval" where
  "append_foreign_key schema table_name fk_str =
     py_bind (getitem schema table_name) (\<lambda>info.
     py_bind (getitem info ''foreign_keys'') (\<lambda>fks.
     py_bind (py_append fks (PStr fk_str)) (\<lambda>fks'.
     py_bind (setitem info ''foreign_keys'' fks') (\<lambda>info'.
     setitem schema table_name info'))))"

text \<open>The body of the inner loop: one clause of a table body.\<close>

definition parse_col_def :: "string \<Rightarrow> pyval \<Rightarrow> string \<Rightarrow> py_error + pyval" where
  "parse_col_def table_name schema col_def0 =
     (let col_def = strip col_def0
      in if startswith (py_upper col_def) (code_points ''PRIMARY KEY'') then
           (case re_search {IGNORECASE} primary_key_pattern col_def of
              None \<Rightarrow> Inr schema
            | Some pk_match \<Rightarrow>
                py_bind (match_group pk_match 1) (\<lambda>g1.
                set_field schema table_name ''primary_key'' (PStr g1)))
         else if startswith (py_upper col_def) (code_points ''FOREIGN KEY'') then
           (case re_search {IGNORECASE} foreign_key_pattern col_def of
              None \<Rightarrow> Inr schema
            | Some fk_match \<Rightarrow>
                py_bind (match_group fk_match 1) (\<lambda>g1.
                py_bind (match_group fk_match 2) (\<lambda>g2.
                py_bind (match_group fk_match 3) (\<lambda>g3.
                append_foreign_key schema table_name (g1 @ '' -> '' @ g2 @ ''.'' @ g3)))))
         else
           (case split_ws1 col_def of
              col_name # col_type # _ \<Rightarrow> set_column schema table_name col_name col_type
            | [part] \<Rightarrow>
                if part \<noteq> [] then set_column schema table_name part ''VARCHAR(255)''
                else Inr schema
            | [] \<Rightarrow> Inr schema))"

text \<open>A \<open>for\<close> loop whose body may raise: the first error ends it.\<close>

fun for_each :: "('s \<Rightarrow> 'a \<Rightarrow> py_error + 's) \<Rightarrow> 'a list \<Rightarrow> 's \<Rightarrow> py_error + 's" where
  "for_each body [] st = Inr st"
| "for_each body (x # xs) st =
     (case body st x of Inl e \<Rightarrow> Inl e | Inr st' \<Rightarrow> for_each body xs st')"

text \<open>The body of the outer loop: one \<open>CREATE TABLE\<close> match.\<close>

definition parse_table :: "pyval \<Rightarrow> re_match \<Rightarrow> py_error + pyval" where
  "parse_table schema m =
     py_bind (match_group m 1) (\<lambda>table_name.
     py_bind (match_group m 2) (\<lambda>columns_str.
     py_bind (setitem schema table_name (table_info [] PNone [])) (\<lambda>schema'.
     let column_definitions = map strip (split_on CHR '','' columns_str)
     in for_each (parse_col_def table_name) column_definitions schema')))"

definition parse_sql_schema :: "string \<Rightarrow> py_error + pyval" where
  "parse_sql_schema sql_statements =
     for_each parse_table
       (re_finditer {IGNORECASE, DOTALL} create_table_pattern sql_statements) (PDict [])"

section \<open>The formatter and the validator\<close>

definition format_columns :: "(pyval \<times> pyval) list \<Rightarrow> string" where
  "format_columns items =
     concat (map (\<lambda>(col_name, col_type).
       ''  - '' @ py_str col_name @ '': '' @ py_str col_type @ ''\<newline>'') items)"

definition format_foreign_keys :: "pyval list \<Rightarrow> string" where
  "format_foreign_keys fks =
     concat (map (\<lambda>fk. ''  - '' @ py_str fk @ ''\<newline>'') fks)"

text \<open>
  What one \<open>TableInfo\<close> dictionary adds to \<open>formatted\<close>. \<open>'k' in table_info\<close> followed by
  \<open>table_info['k']\<close> is one lookup.
\<close>

definition format_table_info :: "(pyval \<times> pyval) list \<Rightarrow> string \<Rightarrow> py_error + string" where
  "format_table_info info formatted =
     py_bind
       (case map_of info (PStr ''columns'') of
          None \<Rightarrow> Inr formatted
        | Some columns \<Rightarrow>
            py_bind (py_items columns) (\<lambda>items.
            Inr (formatted @ ''Columns:\<newline>'' @ format_columns items)))
       (\<lambda>formatted.
     py_bind
       (case map_of info (PStr ''primary_key'') of
          None \<Rightarrow> Inr formatted
        | Some pk \<Rightarrow>
            if truthy pk then Inr (formatted @ ''Primary Key: '' @ py_str pk @ ''\<newline>'')
            else Inr formatted)
       (\<lambda>formatted.
     case map_of info (PStr ''foreign_keys'') of
       None \<Rightarrow> Inr formatted
     | Some fks \<Rightarrow>
         if truthy fks then
           py_bind (py_iter fks) (\<lambda>xs.
           Inr (formatted @ ''Foreign Keys:\<newline>'' @ format_foreign_keys xs))
         else Inr formatted))"

text \<open>The body of the loop over \<open>schema.items()\<close>.\<close>

definition format_table :: "string \<Rightarrow> pyval \<times> pyval \<Rightarrow> py_error + string" where
  "format_table formatted item =
     (case item of (table_name, info) \<Rightarrow>
        py_bind
          (case info of
             PDict info_items \<Rightarrow>
               format_table_info info_items
                 (formatted @ ''Table: '' @ py_str table_name @ ''\<newline>'')
           | _ \<Rightarrow> Inr (formatted @ ''Table: '' @ py_str table_name @ ''\<newline>''))
          (\<lambda>formatted. Inr (formatted @ ''\<newline>'')))"

definition format_schema_for_prompt :: "pyval \<Rightarrow> py_error + string" where
  "format_schema_for_prompt schema =
     (case schema of
        PDict tables \<Rightarrow> for_each format_table tables ''DATABASE SCHEMA:\<newline>\<newline>''
      | _ \<Rightarrow> Inr ''DATABASE SCHEMA:\<newline>\<newline>'')"

definition validate_schema :: "pyval \<Rightarrow> bool" where
  "validate_schema schema =
     (case schema of
        PDict tables \<Rightarrow> if length tables = 0 then False else True
      | _ \<Rightarrow> False)"

section \<open>The loader\<close>

text \<open>
  The file system, \<open>pathlib\<close> and the two decoders are the environment of the loader.
  \<open>exists\<close>, \<open>suffix\<close> and \<open>path_str\<close> are \<open>Path(p).exists()\<close>, \<open>Path(p).suffix\<close> and
  \<open>str(Path(p))\<close>; \<open>read_text\<close> opens and reads a file; \<open>json_load\<close> and \<open>yaml_load\<close>
  decode a file's text. Each of the last three may raise. The loader returns, with its
  result, the list of the files it opened and the decoders it called, in order.
\<close>

record environment =
  exists :: "string \<Rightarrow> bool"
  suffix :: "string \<Rightarrow> string"
  path_str :: "string \<Rightarrow> string"
  read_text :: "string \<Rightarrow> py_error + string"
  json_load :: "string \<Rightarrow> py_error + pyval"
  yaml_load :: "string \<Rightarrow> py_error + pyval"

datatype action = Open string | JsonLoad | YamlLoad | ParseSql

definition load_schema_from_file :: "environment \<Rightarrow> string \<Rightarrow> action list \<times> (py_error + pyval)" where
  "load_schema_from_file env file_path =
     (if \<not> exists env file_path then
        ([], Inl (FileNotFoundError (''Schema file not found: '' @ path_str env file_path)))
      else if py_lower (suffix env file_path) = ''.json'' then
        (case read_text env file_path of
           Inl e \<Rightarrow> ([Open file_path], Inl e)
         | Inr content \<Rightarrow> ([Open file_path, JsonLoad], json_load env content))
      else if py_lower (suffix env file_path) \<in> set [''.yaml'', ''.yml''] then
        (case read_text env file_path of
           Inl e \<Rightarrow> ([Open file_path], Inl e)
         | Inr content \<Rightarrow> ([Open file_path, YamlLoad], yaml_load env content))
      else if py_lower (suffix env file_path) = ''.sql'' then
        (case read_text env file_path of
           Inl e \<Rightarrow> ([Open file_path], Inl e)
         | Inr sql_content \<Rightarrow> ([Open file_path, ParseSql], parse_sql_schema sql_content))
      else ([], Inl (ValueError (''Unsupported file format: '' @ suffix env file_path))))"

text \<open>
  A sample environment: two files exist, \<open>SCHEMA.JSON\<close> holding an empty JSON object and
  \<open>notes.txt\<close>; the decoders know the text \<open>{}\<close> only.
\<close>

definition example_env :: environment where
  "example_env =
     \<lparr> exists = (\<lambda>p. p \<in> set [''SCHEMA.JSON'', ''notes.txt'']),
       suffix = (\<lambda>p. if p = ''SCHEMA.JSON'' then ''.JSON''
                      else if p \<in> set [''notes.txt'', ''missing.txt''] then ''.txt''
                      else []),
       path_str = (\<lambda>p. p),
       read_text = (\<lambda>p. if p = ''SCHEMA.JSON'' then Inr ''{}'' else Inr ''some notes''),
       json_load = (\<lambda>s. if s = ''{}'' then Inr (PDict []) else Inl (DecodeError s)),
       yaml_load = (\<lambda>s. if s = ''{}'' then Inr (PDict []) else Inl (DecodeError s)) \<rparr>"

section \<open>Properties of values\<close>

text \<open>
  \<open>fields_ok\<close> holds of a \<open>TableInfo\<close> entry that the formatter can print: an entry that
  is no dictionary, or a dictionary whose \<open>columns\<close> value, when present, is a dictionary
  and whose \<open>foreign_keys\<close> value, when present and truthy, can be iterated over.
\<close>

definition is_dict :: "pyval \<Rightarrow> bool" where
  "is_dict v = (case v of PDict _ \<Rightarrow> True | _ \<Rightarrow> False)"

definition iterable :: "pyval \<Rightarrow> bool" where
  "iterable v = (case py_iter v of Inr _ \<Rightarrow> True | Inl _ \<Rightarrow> False)"

definition fields_ok :: "pyval \<Rightarrow> bool" where
  "fields_ok info =
     (case info of
        PDict items \<Rightarrow>
          (case map_of items (PStr ''columns'') of None \<Rightarrow> True | Some columns \<Rightarrow> is_dict columns)
          \<and> (case map_of items (PStr ''foreign_keys'') of
                None \<Rightarrow> True
              | Some fks \<Rightarrow> \<not> truthy fks \<or> iterable fks)
      | _ \<Rightarrow> True)"

definition schema_fields_ok :: "pyval \<Rightarrow> bool" where
  "schema_fields_ok schema =
     (case schema of PDict tables \<Rightarrow> list_all (\<lambda>item. fields_ok (snd item)) tables | _ \<Rightarrow> True)"

text \<open>
  What the extractor builds: a table entry is \<open>well_formed_info\<close> when it has the three
  keys \<open>columns\<close>, \<open>primary_key\<close> and \<open>foreign_keys\<close>, in this order and no other, with a
  dictionary from strings to strings, \<open>None\<close> or a string, and a list of strings.
\<close>

definition is_str :: "pyval \<Rightarrow> bool" where
  "is_str v = (case v of PStr _ \<Rightarrow> True | _ \<Rightarrow> False)"

definition well_formed_info :: "pyval \<Rightarrow> bool" where
  "well_formed_info info =
     (case info of
        PDict items \<Rightarrow>
          map fst items = [PStr ''columns'', PStr ''primary_key'', PStr ''foreign_keys'']
          \<and> (case map_of items (PStr ''columns'') of
                Some (PDict columns) \<Rightarrow> list_all (\<lambda>(k, v). is_str k \<and> is_str v) columns
              | _ \<Rightarrow> False)
          \<and> (case map_of items (PStr ''primary_key'') of
                Some pk \<Rightarrow> pk = PNone \<or> is_str pk
              | None \<Rightarrow> False)
          \<and> (case map_of items (PStr ''foreign_keys'') of
                Some (PList fks) \<Rightarrow> list_all is_str fks
              | _ \<Rightarrow> False)
      | _ \<Rightarrow> False)"

definition well_formed_schema :: "pyval \<Rightarrow> bool" where
  "well_formed_schema schema =
     (case schema of
        PDict tables \<Rightarrow> list_all (\<lambda>(name, info). is_str name \<and> well_formed_info info) tables
      | _ \<Rightarrow> False)"

text \<open>\<open>table_present t schema\<close>: the schema is well formed and has an entry for \<open>t\<close>.\<close>

definition table_present :: "string \<Rightarrow> pyval \<Rightarrow> bool" where
  "table_present t schema =
     (well_formed_schema schema
      \<and> (case schema of PDict tables \<Rightarrow> map_of tables (PStr t) \<noteq> None | _ \<Rightarrow> False))"

text \<open>The number of capture groups of a pattern.\<close>

definition count_groups :: "node list \<Rightarrow> nat" where
  "count_groups p = length (filter (\<lambda>n. n = GroupClose) p)"

section \<open>Clauses\<close>

text \<open>
  An identifier is a non-empty run of \<open>\w\<close> characters. A key clause is a clause that
  the extractor classifies as \<open>PRIMARY KEY\<close> or \<open>FOREIGN KEY\<close>: its text, stripped and in
  upper case, starts with one of the two.
\<close>

definition is_identifier :: "string \<Rightarrow> bool" where
  "is_identifier x = (x \<noteq> [] \<and> list_all is_word x)"

definition is_key_clause :: "string \<Rightarrow> bool" where
  "is_key_clause c =
     (startswith (py_upper (strip c)) (code_points ''PRIMARY KEY'')
      \<or> startswith (py_upper (strip c)) (code_points ''FOREIGN KEY''))"

text \<open>
  The clause \<open>FOREIGN KEY (x) REFERENCES y(z)\<close> and the descriptor \<open>x -> y.z\<close>, as the
  specification writes them.
\<close>

definition foreign_key_clause :: "string \<Rightarrow> string \<Rightarrow> string \<Rightarrow> string" where
  "foreign_key_clause x y z = ''FOREIGN KEY ('' @ x @ '') REFERENCES '' @ y @ ''('' @ z @ '')''"

definition foreign_key_descriptor :: "string \<Rightarrow> string \<Rightarrow> string \<Rightarrow> string" where
  "foreign_key_descriptor x y z = x @ '' -> '' @ y @ ''.'' @ z"

text \<open>
  The column that a clause declares as the primary key: the first group of the
  sub-pattern, when the clause is classified as \<open>PRIMARY KEY\<close> and the sub-pattern
  matches.
\<close>

definition primary_key_of_clause :: "string \<Rightarrow> string option" where
  "primary_key_of_clause c =
     (if startswith (py_upper (strip c)) (code_points ''PRIMARY KEY'') then
        (case re_search {IGNORECASE} primary_key_pattern (strip c) of
           None \<Rightarrow> None
         | Some m \<Rightarrow> Some (hd (fst m)))
      else None)"

section \<open>The validator\<close>

lemma py_bind_simps [simp]: "py_bind (Inl e) f = Inl e" "py_bind (Inr v) f = f v"
  by (simp_all add: py_bind_def)

lemma py_bind_Inr_iff: "(py_bind m f = Inr out) = (\<exists>v. m = Inr v \<and> f v = Inr out)"
  by (cases m) simp_all

text \<open>
  C4: \<open>validate_schema\<close> is true exactly for a dictionary with at least one entry; the
  empty dictionary and a plain string are rejected, and so is the result of the extractor
  on a text in which no \<open>CREATE TABLE\<close> statement is found.
\<close>

theorem validate_schema_iff:
  "(validate_schema v \<longleftrightarrow> (\<exists>items. v = PDict items \<and> items \<noteq> []))
   \<and> \<not> validate_schema (PDict [])
   \<and> \<not> validate_schema (PStr s)
   \<and> (re_finditer {IGNORECASE, DOTALL} create_table_pattern text = []
        \<longrightarrow> parse_sql_schema text = Inr (PDict []) \<and> \<not> validate_schema (PDict []))"
  by (cases v) (simp_all add: validate_schema_def parse_sql_schema_def)

theorem validate_schema_witness:
  "validate_schema (PDict [(PStr ''t'', PNone)])
   \<and> re_finditer {IGNORECASE, DOTALL} create_table_pattern ''SELECT 1;'' = []
   \<and> parse_sql_schema ''SELECT 1;'' = Inr (PDict [])
   \<and> \<not> validate_schema (PDict [])"
proof -
  have "re_finditer {IGNORECASE, DOTALL} create_table_pattern ''SELECT 1;'' = []"
    by code_simp
  with validate_schema_iff [of "PDict [(PStr ''t'', PNone)]" "[]" "''SELECT 1;''"]
  show ?thesis by simp
qed

section \<open>The formatter\<close>

lemma format_table_info_ok:
  "(\<exists>out. format_table_info items acc = Inr out) \<longleftrightarrow> fields_ok (PDict items)"
  by (auto simp: format_table_info_def fields_ok_def is_dict_def iterable_def py_items_def
        py_bind_Inr_iff split: option.splits pyval.splits sum.splits if_splits)

lemma format_table_ok:
  "(\<exists>out. format_table acc item = Inr out) \<longleftrightarrow> fields_ok (snd item)"
proof (cases item)
  case (Pair name info)
  show ?thesis
  proof (cases "\<exists>items. info = PDict items")
    case True
    then obtain items where "info = PDict items" by blast
    with Pair format_table_info_ok [of items "acc @ ''Table: '' @ py_str name @ ''\<newline>''"]
    show ?thesis by (auto simp: format_table_def py_bind_Inr_iff)
  next
    case False
    with Pair show ?thesis
      by (cases info) (simp_all add: format_table_def fields_ok_def)
  qed
qed

lemma for_each_format_ok:
  "(\<exists>out. for_each format_table tables acc = Inr out)
     \<longleftrightarrow> list_all (\<lambda>item. fields_ok (snd item)) tables"
proof (induction tables arbitrary: acc)
  case Nil
  show ?case by simp
next
  case (Cons item tables)
  show ?case
  proof (cases "format_table acc item")
    case (Inl e)
    with format_table_ok [of acc item] show ?thesis by simp
  next
    case (Inr acc')
    with format_table_ok [of acc item] Cons.IH [of acc'] show ?thesis by simp
  qed
qed

text \<open>
  Where the guards of the formatter reach: a schema that is no dictionary gives the
  header alone, an entry that is no dictionary gives its \<open>Table:\<close> line alone, and absent
  or falsy fields are skipped.
\<close>

lemma format_returns_when_fields_ok:
  "schema_fields_ok schema \<Longrightarrow> \<exists>out. format_schema_for_prompt schema = Inr out"
  by (cases schema) (simp_all add: format_schema_for_prompt_def schema_fields_ok_def for_each_format_ok)

lemma format_skips_non_dictionary_entry:
  "format_schema_for_prompt
     (PDict [(PStr ''t'', PStr ''text''), (PStr ''u'', PDict [(PStr ''primary_key'', PInt 7)])])
   = Inr ''DATABASE SCHEMA:\<newline>\<newline>Table: t\<newline>\<newline>Table: u\<newline>Primary Key: 7\<newline>\<newline>''"
  by code_simp

text \<open>
  C2: the formatter is to skip a malformed field and return its text. On the schema
  \<open>{"t": {"columns": ["a"]}}\<close>, which \<open>json.load\<close> can return, it does not: the schema and
  the entry pass their \<open>isinstance\<close> checks, the key \<open>columns\<close> is present, and \<open>.items()\<close>
  is called on the list with no check of that kind, so \<open>AttributeError\<close> is raised and no
  text is returned.
\<close>

theorem format_malformed_columns_raises:
  "format_schema_for_prompt (PDict [(PStr ''t'', PDict [(PStr ''columns'', PList [PStr ''a''])])])
     = Inl AttributeError"
  by code_simp

text \<open>
  C8: the formatted text of the example schema, and its lines: the header, a blank
  line, \<open>Table: t\<close>, \<open>Columns:\<close>, the column, the primary key, and no \<open>Foreign Keys:\<close>
  line.
\<close>

theorem format_example:
  "format_schema_for_prompt
       (PDict [(PStr ''t'',
                PDict [(PStr ''columns'', PDict [(PStr ''a'', PStr ''INT'')]),
                       (PStr ''primary_key'', PStr ''a''),
                       (PStr ''foreign_keys'', PList [])])])
     = Inr ''DATABASE SCHEMA:\<newline>\<newline>Table: t\<newline>Columns:\<newline>  - a: INT\<newline>Primary Key: a\<newline>\<newline>''
   \<and> split_on CHR 0x0A ''DATABASE SCHEMA:\<newline>\<newline>Table: t\<newline>Columns:\<newline>  - a: INT\<newline>Primary Key: a\<newline>\<newline>''
     = [''DATABASE SCHEMA:'', [], ''Table: t'', ''Columns:'', ''  - a: INT'', ''Primary Key: a'', [], []]"
  by code_simp

text \<open>
  C10: a table whose \<open>columns\<close> value is the empty dictionary still gets the
  \<open>Columns:\<close> line, with nothing under it; the \<open>Primary Key:\<close> line is there exactly
  when the key is present with a truthy value, and the \<open>Foreign Keys:\<close> block exactly
  when that key is present with a truthy value.
\<close>

theorem empty_columns_header:
  assumes "map_of info (PStr ''columns'') = Some (PDict [])"
    and "\<forall>fks. map_of info (PStr ''foreign_keys'') = Some fks \<and> truthy fks \<longrightarrow> iterable fks"
  shows "format_schema_for_prompt (PDict [(name, PDict info)]) =
     Inr (''DATABASE SCHEMA:\<newline>\<newline>'' @ ''Table: '' @ py_str name @ ''\<newline>''
          @ ''Columns:\<newline>''
          @ (case map_of info (PStr ''primary_key'') of
               None \<Rightarrow> []
             | Some pk \<Rightarrow> if truthy pk then ''Primary Key: '' @ py_str pk @ ''\<newline>'' else [])
          @ (case map_of info (PStr ''foreign_keys'') of
               None \<Rightarrow> []
             | Some fks \<Rightarrow>
                 if truthy fks then ''Foreign Keys:\<newline>'' @ format_foreign_keys (projr (py_iter fks))
                 else [])
          @ ''\<newline>'')"
proof -
  have fk: "(case map_of info (PStr ''foreign_keys'') of
               None \<Rightarrow> Inr acc
             | Some fks \<Rightarrow>
                 if truthy fks then
                   py_bind (py_iter fks) (\<lambda>xs.
                   Inr (acc @ ''Foreign Keys:\<newline>'' @ format_foreign_keys xs))
                 else Inr acc)
          = Inr (acc @ (case map_of info (PStr ''foreign_keys'') of
               None \<Rightarrow> []
             | Some fks \<Rightarrow>
                 if truthy fks then ''Foreign Keys:\<newline>'' @ format_foreign_keys (projr (py_iter fks))
                 else []))" for acc
  proof (cases "map_of info (PStr ''foreign_keys'')")
    case None
    then show ?thesis by simp
  next
    case (Some fks)
    show ?thesis
    proof (cases "truthy fks")
      case False
      with Some show ?thesis by simp
    next
      case True
      with Some assms(2) have "iterable fks" by blast
      then obtain xs where "py_iter fks = Inr xs"
        by (auto simp: iterable_def split: sum.splits)
      with Some True show ?thesis by simp
    qed
  qed
  have pk: "(case map_of info (PStr ''primary_key'') of
          None \<Rightarrow> Inr acc
        | Some pk \<Rightarrow>
            if truthy pk then Inr (acc @ ''Primary Key: '' @ py_str pk @ ''\<newline>'')
            else Inr acc)
         = Inr (acc @ (case map_of info (PStr ''primary_key'') of
               None \<Rightarrow> []
             | Some pk \<Rightarrow> if truthy pk then ''Primary Key: '' @ py_str pk @ ''\<newline>'' else []))" for acc
    by (simp split: option.splits)
  show ?thesis
    by (simp add: format_schema_for_prompt_def format_table_def format_table_info_def
        py_items_def format_columns_def assms(1) pk fk del: append_assoc)
qed

theorem empty_columns_header_witness:
  "map_of [(PStr ''columns'', PDict []), (PStr ''primary_key'', PNone),
           (PStr ''foreign_keys'', PList [PStr ''a -> u.b''])] (PStr ''columns'') = Some (PDict [])
   \<and> iterable (PList [PStr ''a -> u.b''])
   \<and> format_schema_for_prompt
        (PDict [(PStr ''t'', PDict [(PStr ''columns'', PDict []), (PStr ''primary_key'', PNone),
                                   (PStr ''foreign_keys'', PList [PStr ''a -> u.b''])])])
       = Inr ''DATABASE SCHEMA:\<newline>\<newline>Table: t\<newline>Columns:\<newline>Foreign Keys:\<newline>  - a -> u.b\<newline>\<newline>''"
  using empty_columns_header
    [of "[(PStr ''columns'', PDict []), (PStr ''primary_key'', PNone),
          (PStr ''foreign_keys'', PList [PStr ''a -> u.b''])]" "PStr ''t''"]
  by (simp add: iterable_def py_iter_def format_foreign_keys_def py_str_def)

section \<open>The loader\<close>

text \<open>
  C3, as the code has it: a path that does not exist gives \<open>FileNotFoundError\<close> with the
  path, and a file whose extension, in lower case, is none of \<open>.json\<close>, \<open>.yaml\<close>, \<open>.yml\<close>
  and \<open>.sql\<close> gives \<open>ValueError\<close> with the extension as it is written; in both cases no
  file is opened and no decoder or parser is called.
\<close>

theorem load_schema_error_paths:
  "(\<not> exists env p \<longrightarrow>
      load_schema_from_file env p
        = ([], Inl (FileNotFoundError (''Schema file not found: '' @ path_str env p))))
   \<and> (exists env p \<and> py_lower (suffix env p) \<notin> set [''.json'', ''.yaml'', ''.yml'', ''.sql''] \<longrightarrow>
      load_schema_from_file env p
        = ([], Inl (ValueError (''Unsupported file format: '' @ suffix env p))))"
  by (simp add: load_schema_from_file_def)

theorem load_schema_error_paths_witness:
  "\<not> exists example_env ''missing.txt''
   \<and> load_schema_from_file example_env ''missing.txt''
        = ([], Inl (FileNotFoundError ''Schema file not found: missing.txt''))
   \<and> exists example_env ''notes.txt''
   \<and> py_lower (suffix example_env ''notes.txt'') \<notin> set [''.json'', ''.yaml'', ''.yml'', ''.sql'']
   \<and> load_schema_from_file example_env ''notes.txt''
        = ([], Inl (ValueError ''Unsupported file format: .txt''))"
  using load_schema_error_paths [of example_env "''missing.txt''"]
    load_schema_error_paths [of example_env "''notes.txt''"]
  by (simp add: example_env_def py_lower_def lower_char_def)

text \<open>
  C3, as stated, fails for an extension written in upper case: \<open>.JSON\<close> is none of the
  four extensions, and the file is opened and decoded as JSON.
\<close>

theorem load_schema_upper_case_extension:
  "exists example_env ''SCHEMA.JSON''
   \<and> suffix example_env ''SCHEMA.JSON'' \<notin> set [''.json'', ''.yaml'', ''.yml'', ''.sql'']
   \<and> load_schema_from_file example_env ''SCHEMA.JSON'' = ([Open ''SCHEMA.JSON'', JsonLoad], Inr (PDict []))"
  by code_simp

section \<open>Dictionaries and matches\<close>

declare split_on.simps [simp del] re_finditer.simps [simp del]

lemma well_formed_info_table_info:
  "well_formed_info (table_info columns pk fks) \<longleftrightarrow>
     list_all (\<lambda>(k, v). is_str k \<and> is_str v) columns \<and> (pk = PNone \<or> is_str pk) \<and> list_all is_str fks"
  by (simp add: well_formed_info_def table_info_def)

lemma well_formed_infoE:
  assumes "well_formed_info info"
  obtains columns pk fks where "info = table_info columns pk fks"
    "list_all (\<lambda>(k, v). is_str k \<and> is_str v) columns" "pk = PNone \<or> is_str pk" "list_all is_str fks"
proof -
  from assms obtain items where info: "info = PDict items"
    by (cases info) (simp_all add: well_formed_info_def)
  with assms have keys: "map fst items = [PStr ''columns'', PStr ''primary_key'', PStr ''foreign_keys'']"
    by (simp add: well_formed_info_def)
  then obtain a b c where items: "items = [(PStr ''columns'', a), (PStr ''primary_key'', b), (PStr ''foreign_keys'', c)]"
    by (auto simp: map_eq_Cons_conv)
  with assms info obtain columns fks where "a = PDict columns" "c = PList fks"
    by (auto simp: well_formed_info_def split: pyval.splits)
  with items info have "info = table_info columns b fks" by (simp add: table_info_def)
  with assms show ?thesis using that by (simp add: well_formed_info_table_info)
qed

lemma list_all_update:
  "list_all P al \<Longrightarrow> P (k, v) \<Longrightarrow> list_all P (AList.update k v al)"
  by (induction al) auto

lemma table_info_lookups [simp]:
  "getitem (table_info columns pk fks) ''columns'' = Inr (PDict columns)"
  "getitem (table_info columns pk fks) ''foreign_keys'' = Inr (PList fks)"
  "setitem (table_info columns pk fks) ''columns'' c' = Inr (PDict [(PStr ''columns'', c'), (PStr ''primary_key'', pk), (PStr ''foreign_keys'', PList fks)])"
  "setitem (table_info columns pk fks) ''primary_key'' pk' = Inr (table_info columns pk' fks)"
  "setitem (table_info columns pk fks) ''foreign_keys'' (PList fks') = Inr (table_info columns pk fks')"
  by (simp_all add: table_info_def getitem_def setitem_def)

lemma set_field_primary_key:
  assumes "map_of tables (PStr t) = Some (table_info columns pk fks)"
  shows "set_field (PDict tables) t ''primary_key'' v
           = Inr (PDict (AList.update (PStr t) (table_info columns v fks) tables))"
  using assms by (simp add: set_field_def getitem_def [of "PDict tables"] setitem_def [of "PDict tables"])

lemma set_column_eq:
  assumes "map_of tables (PStr t) = Some (table_info columns pk fks)"
  shows "set_column (PDict tables) t col_name col_type
           = Inr (PDict (AList.update (PStr t)
                   (table_info (AList.update (PStr col_name) (PStr col_type) columns) pk fks) tables))"
  using assms
  by (simp add: set_column_def getitem_def [of "PDict tables"] setitem_def [of "PDict tables"]
       setitem_def [of "PDict columns"])
     (simp add: table_info_def)

lemma append_foreign_key_eq:
  assumes "map_of tables (PStr t) = Some (table_info columns pk fks)"
  shows "append_foreign_key (PDict tables) t fk_str
           = Inr (PDict (AList.update (PStr t) (table_info columns pk (fks @ [PStr fk_str])) tables))"
  using assms
  by (simp add: append_foreign_key_def getitem_def [of "PDict tables"] setitem_def [of "PDict tables"]
       py_append_def)

lemma try_each_SomeD: "try_each f ks = Some m \<Longrightarrow> \<exists>k\<in>set ks. f k = Some m"
  by (induction ks) (auto split: option.splits)

lemma match_here_groups:
  "match_here fl p opens caps s = Some m \<Longrightarrow> length (fst m) = length caps + count_groups p"
proof (induction fl p opens caps s rule: match_here.induct)
  case (1 fl opens caps s)
  then show ?case by (auto simp: count_groups_def)
next
  case (2 fl a p opens caps s)
  then show ?case by (auto simp: count_groups_def split: list.splits if_splits)
next
  case (3 fl a p opens caps s)
  from 3(2) obtain k where "match_here fl p opens caps (drop k s) = Some m"
    unfolding match_here.simps by (blast dest: try_each_SomeD)
  with 3(1) show ?case by (simp add: count_groups_def)
next
  case (4 fl a p opens caps s)
  from 4(2) obtain k where "match_here fl p opens caps (drop k s) = Some m"
    unfolding match_here.simps by (blast dest: try_each_SomeD)
  with 4(1) show ?case by (simp add: count_groups_def)
next
  case (5 fl a p opens caps s)
  from 5(2) obtain k where "match_here fl p opens caps (drop k s) = Some m"
    unfolding match_here.simps by (blast dest: try_each_SomeD)
  with 5(1) show ?case by (simp add: count_groups_def)
next
  case (6 fl p opens caps s)
  then show ?case by (simp add: count_groups_def)
next
  case (7 fl p opens caps s)
  then show ?case by (auto simp: count_groups_def split: list.splits)
qed

lemma re_search_groups:
  "re_search fl p s = Some m \<Longrightarrow> length (fst m) = count_groups p"
  by (auto simp: re_search_def dest!: try_each_SomeD match_here_groups)

lemma re_finditer_groups:
  "m \<in> set (re_finditer fl p s) \<Longrightarrow> length (fst m) = count_groups p"
proof (induction fl p s rule: re_finditer.induct)
  case (1 fl p s)
  show ?case
  proof (cases "re_search fl p s")
    case None
    with 1(2) show ?thesis by (simp add: re_finditer.simps [of fl p s])
  next
    case (Some m')
    with 1(2) have "m = m' \<or> (length (snd m') < length s \<and> m \<in> set (re_finditer fl p (snd m')))"
      by (simp add: re_finditer.simps [of fl p s] split: if_splits)
    then show ?thesis
    proof
      assume "m = m'"
      with Some show ?thesis by (simp add: re_search_groups)
    next
      assume "length (snd m') < length s \<and> m \<in> set (re_finditer fl p (snd m'))"
      with 1(1) [OF Some] show ?thesis by simp
    qed
  qed
qed

lemma count_groups_patterns [simp]:
  "count_groups create_table_pattern = 2"
  "count_groups primary_key_pattern = 1"
  "count_groups foreign_key_pattern = 3"
  by (simp_all add: count_groups_def create_table_pattern_def primary_key_pattern_def
        foreign_key_pattern_def lits_def)

lemma match_group_eq: "1 \<le> i \<Longrightarrow> i \<le> length (fst m) \<Longrightarrow> match_group m i = Inr (fst m ! (i - 1))"
  by (simp add: match_group_def)

section \<open>The shape of the extracted schema\<close>

lemma for_each_invariant:
  assumes "I st"
    and "\<And>st x. I st \<Longrightarrow> x \<in> set xs \<Longrightarrow> \<exists>st'. body st x = Inr st' \<and> I st'"
  shows "\<exists>st'. for_each body xs st = Inr st' \<and> I st'"
  using assms
proof (induction xs arbitrary: st)
  case Nil
  then show ?case by simp
next
  case (Cons x xs)
  from Cons.prems obtain st1 where st1: "body st x = Inr st1" "I st1" by fastforce
  from Cons.IH [OF st1(2)] Cons.prems(2) obtain st' where "for_each body xs st1 = Inr st'" "I st'"
    by fastforce
  with st1 show ?case by simp
qed

lemma table_presentE:
  assumes "table_present t schema"
  obtains tables columns pk fks where "schema = PDict tables"
    "map_of tables (PStr t) = Some (table_info columns pk fks)"
    "well_formed_info (table_info columns pk fks)"
proof -
  from assms obtain tables where s: "schema = PDict tables"
    by (cases schema) (simp_all add: table_present_def)
  with assms obtain info where i: "map_of tables (PStr t) = Some info"
    by (auto simp: table_present_def)
  then have "(PStr t, info) \<in> set tables" by (rule map_of_SomeD)
  with assms s have "well_formed_info info"
    by (auto simp: table_present_def well_formed_schema_def list_all_iff)
  then obtain columns pk fks where c: "info = table_info columns pk fks"
    by (rule well_formed_infoE)
  from \<open>well_formed_info info\<close> show ?thesis using that [OF s] i c by simp
qed

lemma table_present_update:
  assumes "well_formed_schema (PDict tables)" "well_formed_info info"
  shows "table_present t (PDict (AList.update (PStr t) info tables))"
  using assms
  by (simp add: table_present_def well_formed_schema_def list_all_update is_str_def update_conv')

lemma parse_col_def_present:
  assumes "table_present t schema"
  shows "\<exists>schema'. parse_col_def t schema c = Inr schema' \<and> table_present t schema'"
proof -
  from assms obtain tables columns pk fks where s: "schema = PDict tables"
    and look: "map_of tables (PStr t) = Some (table_info columns pk fks)"
    and wf: "well_formed_info (table_info columns pk fks)"
    by (rule table_presentE)
  from assms s have wfs: "well_formed_schema (PDict tables)" by (simp add: table_present_def)
  note upd = table_present_update [OF wfs, of _ t]
  have col: "\<exists>schema'. set_column schema t n ty = Inr schema' \<and> table_present t schema'" for n ty
    using wf by (auto simp: s set_column_eq [OF look] well_formed_info_table_info list_all_update is_str_def intro!: upd)
  show ?thesis
  proof (cases "startswith (py_upper (strip c)) (code_points ''PRIMARY KEY'')")
    case True
    show ?thesis
    proof (cases "re_search {IGNORECASE} primary_key_pattern (strip c)")
      case None
      with True assms show ?thesis by (simp add: parse_col_def_def)
    next
      case (Some m)
      then have "length (fst m) = 1" by (simp add: re_search_groups)
      then have "match_group m 1 = Inr (fst m ! 0)" by (simp add: match_group_def)
      with True Some wf show ?thesis
        by (auto simp: parse_col_def_def s set_field_primary_key [OF look]
              well_formed_info_table_info is_str_def intro!: upd)
    qed
  next
    case notpk: False
    show ?thesis
    proof (cases "startswith (py_upper (strip c)) (code_points ''FOREIGN KEY'')")
      case True
      show ?thesis
      proof (cases "re_search {IGNORECASE} foreign_key_pattern (strip c)")
        case None
        with True notpk assms show ?thesis by (simp add: parse_col_def_def)
      next
        case (Some m)
        then have "length (fst m) = 3" by (simp add: re_search_groups)
        then have "match_group m 1 = Inr (fst m ! 0)" "match_group m 2 = Inr (fst m ! 1)" "match_group m 3 = Inr (fst m ! 2)"
          by (simp_all add: match_group_def)
        with True notpk Some wf show ?thesis
          by (auto simp: parse_col_def_def s append_foreign_key_eq [OF look]
                well_formed_info_table_info is_str_def intro!: upd)
      qed
    next
      case False
      with notpk assms col show ?thesis
        by (auto simp: parse_col_def_def split: list.splits)
    qed
  qed
qed

lemma parse_table_well_formed:
  assumes "well_formed_schema schema" "length (fst m) = 2"
  shows "\<exists>schema'. parse_table schema m = Inr schema' \<and> well_formed_schema schema'"
proof -
  from assms(1) obtain tables where s: "schema = PDict tables"
    by (cases schema) (simp_all add: well_formed_schema_def)
  from assms(2) have g: "match_group m 1 = Inr (fst m ! 0)" "match_group m 2 = Inr (fst m ! 1)"
    by (simp_all add: match_group_def)
  have "table_present (fst m ! 0) (PDict (AList.update (PStr (fst m ! 0)) (table_info [] PNone []) tables))"
    using assms(1) s by (intro table_present_update) (simp_all add: well_formed_info_table_info)
  then have "\<exists>schema'.
    for_each (parse_col_def (fst m ! 0)) (map strip (split_on CHR '','' (fst m ! 1)))
       (PDict (AList.update (PStr (fst m ! 0)) (table_info [] PNone []) tables)) = Inr schema'
    \<and> table_present (fst m ! 0) schema'"
    by (rule for_each_invariant [where I = "table_present (fst m ! 0)"])
       (rule parse_col_def_present)
  then show ?thesis
    by (auto simp: parse_table_def match_group_def assms(2) s setitem_def table_present_def)
qed

text \<open>
  C9: for every input text the extractor returns a dictionary, and every entry of it has
  a string as its key and a well-formed table entry as its value: exactly the keys
  \<open>columns\<close>, \<open>primary_key\<close> and \<open>foreign_keys\<close>, with a dictionary from strings to strings,
  \<open>None\<close> or a string, and a list of strings. No error is raised on the way.
\<close>

theorem parse_sql_schema_shape:
  "\<exists>tables. parse_sql_schema s = Inr (PDict tables)
     \<and> list_all (\<lambda>(name, info). is_str name \<and> well_formed_info info) tables"
proof -
  have "well_formed_schema (PDict [])" by (simp add: well_formed_schema_def)
  then have "\<exists>schema. parse_sql_schema s = Inr schema \<and> well_formed_schema schema"
    unfolding parse_sql_schema_def
  proof (rule for_each_invariant [where I = well_formed_schema])
    fix st m
    assume "well_formed_schema st"
      and "m \<in> set (re_finditer {IGNORECASE, DOTALL} create_table_pattern s)"
    then show "\<exists>st'. parse_table st m = Inr st' \<and> well_formed_schema st'"
      by (intro parse_table_well_formed) (simp_all add: re_finditer_groups)
  qed
  then obtain schema where "parse_sql_schema s = Inr schema" "well_formed_schema schema"
    by blast
  then show ?thesis
    by (cases schema) (simp_all add: well_formed_schema_def)
qed

theorem parse_sql_schema_shape_witness:
  "parse_sql_schema ''create table u (id INT); CREATE TABLE o (x, FOREIGN KEY (x) REFERENCES u(id), PRIMARY KEY (x));''
     = Inr (PDict [(PStr ''u'', table_info [(PStr ''id'', PStr ''INT'')] PNone []),
                   (PStr ''o'', table_info [(PStr ''x'', PStr ''VARCHAR(255)'')] (PStr ''x'')
                                  [PStr ''x -> u.id''])])
   \<and> list_all (\<lambda>(name, info). is_str name \<and> well_formed_info info)
        [(PStr ''u'', table_info [(PStr ''id'', PStr ''INT'')] PNone []),
         (PStr ''o'', table_info [(PStr ''x'', PStr ''VARCHAR(255)'')] (PStr ''x'')
                        [PStr ''x -> u.id''])]"
proof -
  have "parse_sql_schema ''create table u (id INT); CREATE TABLE o (x, FOREIGN KEY (x) REFERENCES u(id), PRIMARY KEY (x));''
     = Inr (PDict [(PStr ''u'', table_info [(PStr ''id'', PStr ''INT'')] PNone []),
                   (PStr ''o'', table_info [(PStr ''x'', PStr ''VARCHAR(255)'')] (PStr ''x'')
                                  [PStr ''x -> u.id''])])"
    by code_simp
  with parse_sql_schema_shape
    [of "''create table u (id INT); CREATE TABLE o (x, FOREIGN KEY (x) REFERENCES u(id), PRIMARY KEY (x));''"]
  show ?thesis by simp
qed

section \<open>Matching clauses\<close>

lemma word_not_space: "is_word c \<Longrightarrow> \<not> is_space c"
  by (auto simp: is_word_def is_space_def Let_def)

lemma run_length_Nil [simp]: "run_length fl a [] = 0"
  by (simp add: run_length_def)

lemma run_length_Cons [simp]:
  "run_length fl a (c # s) = (if atom_matches fl a c then Suc (run_length fl a s) else 0)"
  by (simp add: run_length_def)

lemma run_length_word_append:
  "list_all is_word x \<Longrightarrow> run_length fl Word (x @ s) = length x + run_length fl Word s"
  by (induction x) simp_all

lemma identifier_run [simp]:
  assumes "is_identifier x"
  shows "run_length fl Word (x @ s) = length x + run_length fl Word s"
    and "run_length fl Space (x @ s) = 0"
    and "x \<noteq> []" and "Suc 0 \<le> length x"
  using assms
  by (cases x; simp add: is_identifier_def run_length_word_append word_not_space)+

lemma re_search_at_start:
  "match_here fl p [] [] s = Some m \<Longrightarrow> re_search fl p s = Some m"
  by (simp add: re_search_def upt_conv_Cons del: upt_Suc)

lemma char_classes [simp]:
  "\<not> is_word CHR '')''" "\<not> is_word CHR ''(''" "\<not> is_word CHR '' ''" "\<not> is_word CHR '',''"
  "is_space CHR '' ''" "\<not> is_space CHR ''(''" "\<not> is_space CHR '')''"
  "\<not> is_space CHR ''R''" "\<not> is_space CHR ''K''" "\<not> is_space CHR ''P''" "\<not> is_space CHR ''F''"
  by (simp_all add: is_word_def is_space_def)

lemma primary_key_match:
  assumes [simp]: "is_identifier x"
  shows "match_here {IGNORECASE} primary_key_pattern [] [] (''PRIMARY KEY('' @ x @ '')'') = Some ([x], [])"
  by (simp add: primary_key_pattern_def lits_def)

lemma foreign_key_match:
  assumes [simp]: "is_identifier x" "is_identifier y" "is_identifier z"
  shows "match_here {IGNORECASE} foreign_key_pattern [] []
           (''FOREIGN KEY ('' @ x @ '') REFERENCES '' @ y @ ''('' @ z @ '')'') = Some ([x, y, z], [])"
  by (simp add: foreign_key_pattern_def lits_def)

section \<open>Foreign key clauses\<close>

lemma strip_unchanged:
  assumes "s \<noteq> []" "\<not> is_space (hd s)" "\<not> is_space (last s)"
  shows "strip s = s"
proof -
  from assms have "dropWhile is_space s = s" by (cases s) simp_all
  moreover from assms have "dropWhile is_space (rev s) = rev s"
    by (cases "rev s") (simp_all add: hd_rev)
  ultimately show ?thesis by (simp add: strip_def)
qed

lemma py_upper_Nil [simp]: "py_upper [] = []"
  by (simp add: py_upper_def)

lemma py_upper_Cons [simp]: "py_upper (c # s) = upper_char c @ py_upper s"
  by (simp add: py_upper_def)

lemma upper_char_keyword [simp]:
  "upper_char CHR ''P'' = [80]" "upper_char CHR ''R'' = [82]" "upper_char CHR ''I'' = [73]"
  "upper_char CHR ''M'' = [77]" "upper_char CHR ''A'' = [65]" "upper_char CHR ''Y'' = [89]"
  "upper_char CHR '' '' = [32]" "upper_char CHR ''K'' = [75]" "upper_char CHR ''E'' = [69]"
  "upper_char CHR ''F'' = [70]" "upper_char CHR ''O'' = [79]" "upper_char CHR ''G'' = [71]"
  "upper_char CHR ''N'' = [78]"
  by (simp_all add: upper_char_def)

lemma foreign_not_primary:
  "startswith u (code_points ''FOREIGN KEY'') \<Longrightarrow> \<not> startswith u (code_points ''PRIMARY KEY'')"
  by (cases u) (auto simp: startswith_def code_points_def)

lemma foreign_key_clause_strip: "strip (foreign_key_clause x y z) = foreign_key_clause x y z"
  by (rule strip_unchanged) (simp_all add: foreign_key_clause_def)

lemma foreign_key_clause_class:
  "startswith (py_upper (foreign_key_clause x y z)) (code_points ''FOREIGN KEY'')"
  by (simp add: foreign_key_clause_def startswith_def code_points_def)

lemma foreign_key_clause_step:
  assumes "map_of tables (PStr t) = Some (table_info columns pk fks)"
    and "is_identifier x" "is_identifier y" "is_identifier z"
  shows "parse_col_def t (PDict tables) (foreign_key_clause x y z)
           = Inr (PDict (AList.update (PStr t)
                   (table_info columns pk (fks @ [PStr (foreign_key_descriptor x y z)])) tables))"
proof -
  have "re_search {IGNORECASE} foreign_key_pattern (foreign_key_clause x y z) = Some ([x, y, z], [])"
    unfolding foreign_key_clause_def
    by (rule re_search_at_start) (rule foreign_key_match [OF assms(2-4)])
  then show ?thesis
    using foreign_key_clause_class [of x y z] foreign_not_primary [OF foreign_key_clause_class [of x y z]]
    by (simp add: parse_col_def_def foreign_key_clause_strip match_group_def
          append_foreign_key_eq [OF assms(1)] foreign_key_descriptor_def)
qed

lemma foreign_key_clauses_loop:
  assumes "list_all (\<lambda>(x, y, z). is_identifier x \<and> is_identifier y \<and> is_identifier z) refs"
    and "map_of tables (PStr t) = Some (table_info columns pk fks)"
  shows "for_each (parse_col_def t) (map (\<lambda>(x, y, z). foreign_key_clause x y z) refs) (PDict tables)
      = Inr (PDict (AList.update (PStr t)
              (table_info columns pk
                 (fks @ map (\<lambda>(x, y, z). PStr (foreign_key_descriptor x y z)) refs)) tables))"
  using assms
proof (induction refs arbitrary: tables fks)
  case Nil
  then show ?case by (simp add: update_triv)
next
  case (Cons r refs)
  obtain x y z where r: "r = (x, y, z)" by (cases r) auto
  with Cons.prems have ids: "is_identifier x" "is_identifier y" "is_identifier z" by simp_all
  let ?tables = "AList.update (PStr t)
      (table_info columns pk (fks @ [PStr (foreign_key_descriptor x y z)])) tables"
  have step: "parse_col_def t (PDict tables) (foreign_key_clause x y z) = Inr (PDict ?tables)"
    by (rule foreign_key_clause_step [OF Cons.prems(2) ids])
  have "map_of ?tables (PStr t)
          = Some (table_info columns pk (fks @ [PStr (foreign_key_descriptor x y z)]))"
    by (simp add: update_conv')
  from Cons.IH [OF _ this] Cons.prems(1) step r show ?case by simp
qed

text \<open>
  C5: when the clauses of a table body are \<open>FOREIGN KEY (x) REFERENCES y(z)\<close> clauses, for
  identifiers \<open>x\<close>, \<open>y\<close> and \<open>z\<close>, the loop over them appends the descriptors \<open>x -> y.z\<close> to
  the table's \<open>foreign_keys\<close>, in the order of the clauses, and changes nothing else. A
  clause that starts with \<open>FOREIGN KEY\<close> and that the sub-pattern does not match leaves the
  schema as it is, and no error is raised.
\<close>

theorem foreign_key_clauses_appended:
  "(map_of tables (PStr t) = Some (table_info columns pk fks)
      \<and> list_all (\<lambda>(x, y, z). is_identifier x \<and> is_identifier y \<and> is_identifier z) refs
    \<longrightarrow> for_each (parse_col_def t) (map (\<lambda>(x, y, z). foreign_key_clause x y z) refs) (PDict tables)
          = Inr (PDict (AList.update (PStr t)
                  (table_info columns pk
                     (fks @ map (\<lambda>(x, y, z). PStr (foreign_key_descriptor x y z)) refs)) tables)))
   \<and> (startswith (py_upper (strip c)) (code_points ''FOREIGN KEY'')
        \<and> re_search {IGNORECASE} foreign_key_pattern (strip c) = None
      \<longrightarrow> parse_col_def t schema c = Inr schema)"
  using foreign_key_clauses_loop [of refs tables t columns pk fks] foreign_not_primary
  by (auto simp: parse_col_def_def)

theorem foreign_key_clauses_appended_witness:
  "map_of [(PStr ''o'', table_info [] PNone [])] (PStr ''o'') = Some (table_info [] PNone [])
   \<and> list_all (\<lambda>(x, y, z). is_identifier x \<and> is_identifier y \<and> is_identifier z)
        [(''a'', ''u'', ''id''), (''b'', ''v'', ''id'')]
   \<and> for_each (parse_col_def ''o'')
        [''FOREIGN KEY (a) REFERENCES u(id)'', ''FOREIGN KEY (b) REFERENCES v(id)'']
        (PDict [(PStr ''o'', table_info [] PNone [])])
       = Inr (PDict [(PStr ''o'', table_info [] PNone [PStr ''a -> u.id'', PStr ''b -> v.id''])])
   \<and> startswith (py_upper (strip ''FOREIGN KEY (a b)'')) (code_points ''FOREIGN KEY'')
   \<and> re_search {IGNORECASE} foreign_key_pattern (strip ''FOREIGN KEY (a b)'') = None
   \<and> parse_col_def ''o'' (PDict []) ''FOREIGN KEY (a b)'' = Inr (PDict [])"
proof -
  have ids: "list_all (\<lambda>(x, y, z). is_identifier x \<and> is_identifier y \<and> is_identifier z)
        [(''a'', ''u'', ''id''), (''b'', ''v'', ''id'')]"
    by code_simp
  have cls: "startswith (py_upper (strip ''FOREIGN KEY (a b)'')) (code_points ''FOREIGN KEY'')"
    by code_simp
  have none: "re_search {IGNORECASE} foreign_key_pattern (strip ''FOREIGN KEY (a b)'') = None"
    by code_simp
  from foreign_key_clauses_appended
    [of "[(PStr ''o'', table_info [] PNone [])]" "''o''" "[]" PNone "[]"
        "[(''a'', ''u'', ''id''), (''b'', ''v'', ''id'')]" "''FOREIGN KEY (a b)''" "PDict []"]
    ids cls none
  show ?thesis
    by (simp add: foreign_key_clause_def foreign_key_descriptor_def)
qed

text \<open>Two foreign keys between column clauses, in a whole statement.\<close>

lemma foreign_keys_in_statement:
  "parse_sql_schema
     ''CREATE TABLE o (id INT, FOREIGN KEY (a) REFERENCES u(id), b INT, FOREIGN KEY (b) REFERENCES v(id));''
   = Inr (PDict [(PStr ''o'',
            table_info [(PStr ''id'', PStr ''INT''), (PStr ''b'', PStr ''INT'')] PNone
              [PStr ''a -> u.id'', PStr ''b -> v.id''])])"
  by code_simp

section \<open>Primary key clauses\<close>

lemma parse_col_def_step:
  assumes look: "map_of tables (PStr t) = Some (table_info columns pk fks)"
  shows "\<exists>columns' fks'.
           parse_col_def t (PDict tables) c
             = Inr (PDict (AList.update (PStr t)
                     (table_info columns'
                        (case primary_key_of_clause c of None \<Rightarrow> pk | Some name \<Rightarrow> PStr name) fks')
                     tables))
           \<and> (is_key_clause c \<longrightarrow> columns' = columns)"
proof -
  have same: "PDict tables = PDict (AList.update (PStr t) (table_info columns pk fks) tables)"
    using look by (simp add: update_triv)
  show ?thesis
  proof (cases "startswith (py_upper (strip c)) (code_points ''PRIMARY KEY'')")
    case True
    show ?thesis
    proof (cases "re_search {IGNORECASE} primary_key_pattern (strip c)")
      case None
      with True same show ?thesis
        by (auto simp: parse_col_def_def primary_key_of_clause_def)
    next
      case (Some m)
      then have "length (fst m) = 1" by (simp add: re_search_groups)
      then have "match_group m 1 = Inr (hd (fst m))"
        by (cases "fst m") (simp_all add: match_group_def)
      with True Some show ?thesis
        by (auto simp: parse_col_def_def primary_key_of_clause_def set_field_primary_key [OF look])
    qed
  next
    case notpk: False
    show ?thesis
    proof (cases "startswith (py_upper (strip c)) (code_points ''FOREIGN KEY'')")
      case True
      show ?thesis
      proof (cases "re_search {IGNORECASE} foreign_key_pattern (strip c)")
        case None
        with True notpk same show ?thesis
          by (auto simp: parse_col_def_def primary_key_of_clause_def)
      next
        case (Some m)
        then have "length (fst m) = 3" by (simp add: re_search_groups)
        then have "match_group m 1 = Inr (fst m ! 0)" "match_group m 2 = Inr (fst m ! 1)" "match_group m 3 = Inr (fst m ! 2)"
          by (simp_all add: match_group_def)
        with True notpk Some show ?thesis
          by (auto simp: parse_col_def_def primary_key_of_clause_def append_foreign_key_eq [OF look])
      qed
    next
      case False
      with notpk same show ?thesis
        by (auto simp: parse_col_def_def primary_key_of_clause_def is_key_clause_def
              set_column_eq [OF look] split: list.splits)
    qed
  qed
qed

lemma parse_col_defs_loop:
  assumes "map_of tables (PStr t) = Some (table_info columns pk fks)"
  shows "\<exists>tables' columns' fks'.
           for_each (parse_col_def t) cs (PDict tables) = Inr (PDict tables')
           \<and> map_of tables' (PStr t)
               = Some (table_info columns'
                        (case List.map_filter primary_key_of_clause cs of
                           [] \<Rightarrow> pk
                         | names \<Rightarrow> PStr (last names)) fks')
           \<and> (list_all is_key_clause cs \<longrightarrow> columns' = columns)"
  using assms
proof (induction cs arbitrary: tables columns pk fks)
  case Nil
  then show ?case by (fastforce simp: map_filter_simps)
next
  case (Cons c cs)
  let ?pk = "case primary_key_of_clause c of None \<Rightarrow> pk | Some name \<Rightarrow> PStr name"
  from parse_col_def_step [OF Cons.prems, of c] obtain columns1 fks1 where
    step: "parse_col_def t (PDict tables) c
             = Inr (PDict (AList.update (PStr t) (table_info columns1 ?pk fks1) tables))"
    and cols1: "is_key_clause c \<longrightarrow> columns1 = columns"
    by blast
  let ?tables = "AList.update (PStr t) (table_info columns1 ?pk fks1) tables"
  have "map_of ?tables (PStr t) = Some (table_info columns1 ?pk fks1)"
    by (simp add: update_conv')
  from Cons.IH [OF this] obtain tables' columns' fks' where
    loop: "for_each (parse_col_def t) cs (PDict ?tables) = Inr (PDict tables')"
    and look': "map_of tables' (PStr t)
               = Some (table_info columns'
                        (case List.map_filter primary_key_of_clause cs of
                           [] \<Rightarrow> ?pk
                         | names \<Rightarrow> PStr (last names)) fks')"
    and cols': "list_all is_key_clause cs \<longrightarrow> columns' = columns1"
    by blast
  have "(case List.map_filter primary_key_of_clause cs of [] \<Rightarrow> ?pk | names \<Rightarrow> PStr (last names))
        = (case List.map_filter primary_key_of_clause (c # cs) of
             [] \<Rightarrow> pk | names \<Rightarrow> PStr (last names))"
    by (simp add: map_filter_simps split: option.splits list.splits)
  with look' have "map_of tables' (PStr t)
               = Some (table_info columns'
                        (case List.map_filter primary_key_of_clause (c # cs) of
                           [] \<Rightarrow> pk
                         | names \<Rightarrow> PStr (last names)) fks')"
    by simp
  moreover have "for_each (parse_col_def t) (c # cs) (PDict tables) = Inr (PDict tables')"
    using step loop by simp
  moreover have "list_all is_key_clause (c # cs) \<longrightarrow> columns' = columns"
    using cols1 cols' by simp
  ultimately show ?case by blast
qed

lemma primary_key_clause_name:
  assumes "is_identifier x"
  shows "primary_key_of_clause (''PRIMARY KEY('' @ x @ '')'') = Some x"
proof -
  define c where "c = ''PRIMARY KEY('' @ x @ '')''"
  have "strip c = c"
    unfolding c_def by (rule strip_unchanged) simp_all
  moreover have "re_search {IGNORECASE} primary_key_pattern c = Some ([x], [])"
    unfolding c_def by (rule re_search_at_start) (rule primary_key_match [OF assms])
  moreover have "startswith (py_upper c) (code_points ''PRIMARY KEY'')"
    unfolding c_def by (simp add: startswith_def code_points_def)
  ultimately have "primary_key_of_clause c = Some x"
    by (simp add: primary_key_of_clause_def)
  then show ?thesis by (simp only: c_def)
qed

text \<open>
  C6: after the loop over the clauses of a table body, the table's \<open>primary_key\<close> is the
  column of the last clause that is classified as \<open>PRIMARY KEY\<close> and that the sub-pattern
  matches (the value from before the loop when there is none): a later clause overwrites
  an earlier one. A loop over key clauses only leaves \<open>columns\<close> as it was, so no key
  clause is added to it. The clause \<open>PRIMARY KEY(x)\<close> declares \<open>x\<close>.
\<close>

theorem last_primary_key_wins:
  "(map_of tables (PStr t) = Some (table_info columns pk fks) \<longrightarrow>
      (\<exists>tables' columns' fks'.
           for_each (parse_col_def t) cs (PDict tables) = Inr (PDict tables')
           \<and> map_of tables' (PStr t)
               = Some (table_info columns'
                        (case List.map_filter primary_key_of_clause cs of
                           [] \<Rightarrow> pk
                         | names \<Rightarrow> PStr (last names)) fks')
           \<and> (list_all is_key_clause cs \<longrightarrow> columns' = columns)))
   \<and> (is_identifier x \<longrightarrow> primary_key_of_clause (''PRIMARY KEY('' @ x @ '')'') = Some x)"
  using parse_col_defs_loop [of tables t columns pk fks cs] primary_key_clause_name [of x]
  by blast

theorem last_primary_key_wins_witness:
  "map_of [(PStr ''t'', table_info [(PStr ''a'', PStr ''INT'')] PNone [])] (PStr ''t'')
     = Some (table_info [(PStr ''a'', PStr ''INT'')] PNone [])
   \<and> List.map_filter primary_key_of_clause
        [''PRIMARY KEY(a)'', ''primary key (b)'', ''PRIMARY KEY b'', ''FOREIGN KEY (b) REFERENCES u(id)'']
       = [''a'', ''b'']
   \<and> list_all is_key_clause
        [''PRIMARY KEY(a)'', ''primary key (b)'', ''PRIMARY KEY b'', ''FOREIGN KEY (b) REFERENCES u(id)'']
   \<and> for_each (parse_col_def ''t'')
        [''PRIMARY KEY(a)'', ''primary key (b)'', ''PRIMARY KEY b'', ''FOREIGN KEY (b) REFERENCES u(id)'']
        (PDict [(PStr ''t'', table_info [(PStr ''a'', PStr ''INT'')] PNone [])])
       = Inr (PDict [(PStr ''t'', table_info [(PStr ''a'', PStr ''INT'')] (PStr ''b'')
                                    [PStr ''b -> u.id''])])
   \<and> is_identifier ''a''
   \<and> primary_key_of_clause ''PRIMARY KEY(a)'' = Some ''a''"
proof -
  have names: "List.map_filter primary_key_of_clause
        [''PRIMARY KEY(a)'', ''primary key (b)'', ''PRIMARY KEY b'', ''FOREIGN KEY (b) REFERENCES u(id)'']
       = [''a'', ''b'']"
    by code_simp
  have keys: "list_all is_key_clause
        [''PRIMARY KEY(a)'', ''primary key (b)'', ''PRIMARY KEY b'', ''FOREIGN KEY (b) REFERENCES u(id)'']"
    by code_simp
  have run: "for_each (parse_col_def ''t'')
        [''PRIMARY KEY(a)'', ''primary key (b)'', ''PRIMARY KEY b'', ''FOREIGN KEY (b) REFERENCES u(id)'']
        (PDict [(PStr ''t'', table_info [(PStr ''a'', PStr ''INT'')] PNone [])])
       = Inr (PDict [(PStr ''t'', table_info [(PStr ''a'', PStr ''INT'')] (PStr ''b'')
                                    [PStr ''b -> u.id''])])"
    by code_simp
  have ident: "is_identifier ''a''"
    by code_simp
  from last_primary_key_wins
    [of "[(PStr ''t'', table_info [(PStr ''a'', PStr ''INT'')] PNone [])]" "''t''"
        "[(PStr ''a'', PStr ''INT'')]" PNone "[]"
        "[''PRIMARY KEY(a)'', ''primary key (b)'', ''PRIMARY KEY b'', ''FOREIGN KEY (b) REFERENCES u(id)'']"
        "''a''"]
    names keys run ident
  show ?thesis by simp
qed

text \<open>
  Two primary keys in a whole statement: the second one stays. The classification takes
  the prefix \<open>PRIMARY KEY\<close> as it is written: with two spaces between the words a clause
  is no key clause, and it is recorded as a column named \<open>PRIMARY\<close>.
\<close>

lemma primary_keys_in_statement:
  "parse_sql_schema ''CREATE TABLE t (a INT, PRIMARY KEY (a), b INT, PRIMARY KEY (b));''
   = Inr (PDict [(PStr ''t'',
            table_info [(PStr ''a'', PStr ''INT''), (PStr ''b'', PStr ''INT'')] (PStr ''b'') [])])"
  by code_simp

lemma primary_key_two_spaces:
  "\<not> is_key_clause ''PRIMARY  KEY (a)''
   \<and> parse_sql_schema ''CREATE TABLE t (a INT, PRIMARY  KEY (a));''
       = Inr (PDict [(PStr ''t'',
                table_info [(PStr ''a'', PStr ''INT''), (PStr ''PRIMARY'', PStr ''KEY (a)'')]
                  PNone [])])"
  by code_simp

section \<open>Column clauses\<close>

lemma split_ws1_Nil: "split_ws1 [] = []"
  by (simp add: split_ws1_def)

lemma split_ws1_single:
  assumes "name \<noteq> []" "list_all (\<lambda>ch. \<not> is_space ch) name"
  shows "split_ws1 name = [name]"
proof -
  from assms have a: "dropWhile is_space name = name" by (cases name) simp_all
  from assms(2) have b: "takeWhile (\<lambda>c. \<not> is_space c) name = name"
    by (simp add: list_all_iff)
  from assms(2) have c: "dropWhile (\<lambda>c. \<not> is_space c) name = []"
    by (simp add: list_all_iff)
  show ?thesis unfolding split_ws1_def Let_def a b c using assms(1) by simp
qed

lemma split_ws1_two:
  assumes "name \<noteq> []" "list_all (\<lambda>ch. \<not> is_space ch) name"
    and "ws \<noteq> []" "list_all is_space ws" and "ty \<noteq> []" "\<not> is_space (hd ty)"
  shows "split_ws1 (name @ ws @ ty) = [name, ty]"
proof -
  from assms(1,2) have a: "dropWhile is_space (name @ ws @ ty) = name @ ws @ ty"
    by (cases name) simp_all
  from assms(5,6) have ty: "dropWhile is_space ty = ty" by (cases ty) simp_all
  from assms(3,4) have "takeWhile (\<lambda>c. \<not> is_space c) (ws @ ty) = []"
    "dropWhile (\<lambda>c. \<not> is_space c) (ws @ ty) = ws @ ty"
    by (cases ws; simp)+
  with assms(2) have b: "takeWhile (\<lambda>c. \<not> is_space c) (name @ ws @ ty) = name"
    and c: "dropWhile (\<lambda>c. \<not> is_space c) (name @ ws @ ty) = ws @ ty"
    by (simp_all add: list_all_iff takeWhile_append2 dropWhile_append2)
  from assms(4) ty have d: "dropWhile is_space (ws @ ty) = ty"
    by (simp add: list_all_iff dropWhile_append2)
  show ?thesis unfolding split_ws1_def Let_def a b c d using assms(1,5) by simp
qed

lemma last_dropWhile: "dropWhile P xs \<noteq> [] \<Longrightarrow> last (dropWhile P xs) = last xs"
  by (induction xs) (auto split: if_splits)

lemma strip_ends:
  assumes "strip s \<noteq> []"
  shows "\<not> is_space (hd (strip s))" "\<not> is_space (last (strip s))"
proof -
  let ?u = "dropWhile is_space s"
  let ?v = "dropWhile is_space (rev ?u)"
  from assms have v: "?v \<noteq> []" by (simp add: strip_def)
  have u: "?u \<noteq> []"
  proof
    assume "?u = []"
    then have "?v = []" by (simp only: rev.simps dropWhile.simps)
    with v show False by blast
  qed
  have "hd (strip s) = last ?v" using v by (simp add: strip_def hd_rev)
  also have "\<dots> = last (rev ?u)" using v by (rule last_dropWhile)
  also have "\<dots> = hd ?u" using u by (simp add: last_rev)
  finally show "\<not> is_space (hd (strip s))" using hd_dropWhile [OF u] by simp
  have "last (strip s) = hd ?v" using v by (simp add: strip_def last_rev)
  then show "\<not> is_space (last (strip s))" using hd_dropWhile [OF v] by simp
qed

lemma clause_forms:
  assumes "s \<noteq> []" "\<not> is_space (hd s)" "\<not> is_space (last s)"
  shows "list_all (\<lambda>ch. \<not> is_space ch) s
    \<or> (\<exists>name ws ty. s = name @ ws @ ty \<and> name \<noteq> [] \<and> list_all (\<lambda>ch. \<not> is_space ch) name
          \<and> ws \<noteq> [] \<and> list_all is_space ws \<and> ty \<noteq> [] \<and> \<not> is_space (hd ty))"
proof (cases "list_all (\<lambda>ch. \<not> is_space ch) s")
  case True
  then show ?thesis by simp
next
  case False
  let ?name = "takeWhile (\<lambda>c. \<not> is_space c) s"
  let ?r = "dropWhile (\<lambda>c. \<not> is_space c) s"
  let ?ws = "takeWhile is_space ?r"
  let ?ty = "dropWhile is_space ?r"
  from False have r: "?r \<noteq> []" by (simp add: list_all_iff)
  have s: "s = ?name @ ?ws @ ?ty" by simp
  have name: "?name \<noteq> []" using assms(1,2) by (cases s) simp_all
  have name_all: "list_all (\<lambda>ch. \<not> is_space ch) ?name"
    by (auto simp: list_all_iff dest: set_takeWhileD)
  have "is_space (hd ?r)" using hd_dropWhile [OF r] by simp
  then have ws: "?ws \<noteq> []" using r by (cases ?r) simp_all
  have ws_all: "list_all is_space ?ws"
    by (auto simp: list_all_iff dest: set_takeWhileD)
  have ty: "?ty \<noteq> []"
  proof
    assume e: "?ty = []"
    have "last (?name @ ?ws) = last ?ws" using ws by (rule last_appendR)
    moreover have "?name @ ?ws @ ?ty = ?name @ ?ws" unfolding e by simp
    ultimately have "last (?name @ ?ws @ ?ty) = last ?ws" by (simp only:)
    then have "last s = last ?ws" by (simp only: s [symmetric])
    moreover have "last ?ws \<in> set ?ws" using ws by (rule last_in_set)
    then have "is_space (last ?ws)" by (rule set_takeWhileD [THEN conjunct2])
    ultimately show False using assms(3) by metis
  qed
  then have hd_ty: "\<not> is_space (hd ?ty)" by (rule hd_dropWhile)
  show ?thesis
    by (rule disjI2, rule exI [of _ ?name], rule exI [of _ ?ws], rule exI [of _ ?ty])
       (intro conjI s name name_all ws ws_all ty hd_ty)
qed

text \<open>
  C7: a clause that is no key clause is split at its first run of whitespace. When the
  stripped clause is empty nothing changes; when it has no whitespace it is recorded as a
  column of type \<open>VARCHAR(255)\<close>; when it is a name, a run of whitespace and a rest, the
  name is recorded with the rest as its type. Every stripped clause has one of the three
  forms.
\<close>

theorem column_clause:
  assumes "map_of tables (PStr t) = Some (table_info columns pk fks)" and "\<not> is_key_clause c"
  shows "(strip c = [] \<longrightarrow> parse_col_def t (PDict tables) c = Inr (PDict tables))
    \<and> (strip c \<noteq> [] \<and> list_all (\<lambda>ch. \<not> is_space ch) (strip c) \<longrightarrow>
         parse_col_def t (PDict tables) c
           = Inr (PDict (AList.update (PStr t)
                   (table_info (AList.update (PStr (strip c)) (PStr ''VARCHAR(255)'') columns) pk fks)
                   tables)))
    \<and> (strip c = name @ ws @ ty \<and> name \<noteq> [] \<and> list_all (\<lambda>ch. \<not> is_space ch) name
          \<and> ws \<noteq> [] \<and> list_all is_space ws \<and> ty \<noteq> [] \<and> \<not> is_space (hd ty) \<longrightarrow>
         parse_col_def t (PDict tables) c
           = Inr (PDict (AList.update (PStr t)
                   (table_info (AList.update (PStr name) (PStr ty) columns) pk fks) tables)))
    \<and> (strip c = []
         \<or> list_all (\<lambda>ch. \<not> is_space ch) (strip c)
         \<or> (\<exists>name ws ty. strip c = name @ ws @ ty \<and> name \<noteq> []
               \<and> list_all (\<lambda>ch. \<not> is_space ch) name
               \<and> ws \<noteq> [] \<and> list_all is_space ws \<and> ty \<noteq> [] \<and> \<not> is_space (hd ty)))"
proof -
  from assms(2) have nk: "\<not> startswith (py_upper (strip c)) (code_points ''PRIMARY KEY'')"
    "\<not> startswith (py_upper (strip c)) (code_points ''FOREIGN KEY'')"
    by (simp_all add: is_key_clause_def)
  have col: "parse_col_def t (PDict tables) c =
     (case split_ws1 (strip c) of
        col_name # col_type # _ \<Rightarrow> set_column (PDict tables) t col_name col_type
      | [part] \<Rightarrow> if part \<noteq> [] then set_column (PDict tables) t part ''VARCHAR(255)''
                  else Inr (PDict tables)
      | [] \<Rightarrow> Inr (PDict tables))"
    using nk by (simp add: parse_col_def_def)
  have 1: "strip c = [] \<longrightarrow> parse_col_def t (PDict tables) c = Inr (PDict tables)"
    by (simp add: col split_ws1_Nil)
  have 2: "strip c \<noteq> [] \<and> list_all (\<lambda>ch. \<not> is_space ch) (strip c) \<longrightarrow>
         parse_col_def t (PDict tables) c
           = Inr (PDict (AList.update (PStr t)
                   (table_info (AList.update (PStr (strip c)) (PStr ''VARCHAR(255)'') columns) pk fks)
                   tables))"
    by (simp add: col split_ws1_single set_column_eq [OF assms(1)])
  have 3: "strip c = name @ ws @ ty \<and> name \<noteq> [] \<and> list_all (\<lambda>ch. \<not> is_space ch) name
          \<and> ws \<noteq> [] \<and> list_all is_space ws \<and> ty \<noteq> [] \<and> \<not> is_space (hd ty) \<longrightarrow>
         parse_col_def t (PDict tables) c
           = Inr (PDict (AList.update (PStr t)
                   (table_info (AList.update (PStr name) (PStr ty) columns) pk fks) tables))"
    by (simp add: col split_ws1_two set_column_eq [OF assms(1)])
  have 4: "strip c = []
         \<or> list_all (\<lambda>ch. \<not> is_space ch) (strip c)
         \<or> (\<exists>name ws ty. strip c = name @ ws @ ty \<and> name \<noteq> []
               \<and> list_all (\<lambda>ch. \<not> is_space ch) name
               \<and> ws \<noteq> [] \<and> list_all is_space ws \<and> ty \<noteq> [] \<and> \<not> is_space (hd ty))"
  proof (cases "strip c = []")
    case True
    then show ?thesis by (rule disjI1)
  next
    case False
    from clause_forms [OF False strip_ends [OF False]] show ?thesis by (rule disjI2)
  qed
  show ?thesis by (rule conjI [OF 1 conjI [OF 2 conjI [OF 3 4]]])
qed

theorem column_clause_witness:
  "map_of [(PStr ''t'', table_info [] PNone [])] (PStr ''t'') = Some (table_info [] PNone [])
   \<and> \<not> is_key_clause (''  name'' @ [CHR 0x09] @ '' VARCHAR(50) NOT NULL '')
   \<and> strip (''  name'' @ [CHR 0x09] @ '' VARCHAR(50) NOT NULL '')
       = ''name'' @ ([CHR 0x09] @ '' '') @ ''VARCHAR(50) NOT NULL''
   \<and> parse_col_def ''t'' (PDict [(PStr ''t'', table_info [] PNone [])])
        (''  name'' @ [CHR 0x09] @ '' VARCHAR(50) NOT NULL '')
       = Inr (PDict [(PStr ''t'',
                table_info [(PStr ''name'', PStr ''VARCHAR(50) NOT NULL'')] PNone [])])"
proof -
  have nk: "\<not> is_key_clause (''  name'' @ [CHR 0x09] @ '' VARCHAR(50) NOT NULL '')"
    by code_simp
  have st: "strip (''  name'' @ [CHR 0x09] @ '' VARCHAR(50) NOT NULL '')
       = ''name'' @ ([CHR 0x09] @ '' '') @ ''VARCHAR(50) NOT NULL''"
    by code_simp
  have sp: "list_all (\<lambda>ch. \<not> is_space ch) ''name''" "list_all is_space ([CHR 0x09] @ '' '')"
    "\<not> is_space (hd ''VARCHAR(50) NOT NULL'')"
    by code_simp+
  from column_clause
    [of "[(PStr ''t'', table_info [] PNone [])]" "''t''" "[]" PNone "[]"
        "''  name'' @ [CHR 0x09] @ '' VARCHAR(50) NOT NULL ''"
        "''name''" "[CHR 0x09] @ '' ''" "''VARCHAR(50) NOT NULL''"]
    nk st sp
  show ?thesis by simp
qed

section \<open>One statement\<close>

lemma try_each_None: "(\<And>k. k \<in> set ks \<Longrightarrow> f k = None) \<Longrightarrow> try_each f ks = None"
  by (induction ks) simp_all

lemma try_each_append:
  "try_each f (ks @ ks') = (case try_each f ks of Some m \<Rightarrow> Some m | None \<Rightarrow> try_each f ks')"
  by (induction ks) (simp_all split: option.splits)

lemma try_each_first:
  assumes "k < n" and "\<And>j. j < k \<Longrightarrow> f j = None" and "f k = Some m"
  shows "try_each f [0..<n] = Some m"
proof -
  from assms(1) have "[0..<n] = [0..<k] @ k # [Suc k..<n]"
    by (metis le_add1 less_imp_add_positive upt_add_eq_append upt_conv_Cons zero_le add_0)
  moreover have "try_each f [0..<k] = None"
    by (rule try_each_None) (simp add: assms(2))
  ultimately show ?thesis by (simp add: try_each_append assms(3))
qed

lemma lower_char_symbol:
  assumes "lower_char c = d" "(of_char d :: nat) < 97"
  shows "c = d"
proof (rule ccontr)
  assume "c \<noteq> d"
  with assms(1) have d: "d = char_of ((of_char c :: nat) + 32)"
    and r: "(65 \<le> (of_char c :: nat) \<and> (of_char c :: nat) \<le> 90)
            \<or> (192 \<le> (of_char c :: nat) \<and> (of_char c :: nat) \<le> 222 \<and> (of_char c :: nat) \<noteq> 215)"
    by (auto simp: lower_char_def Let_def split: if_splits)
  from d have "(of_char d :: nat) = ((of_char c :: nat) + 32) mod 256" by simp
  with r assms(2) show False by auto
qed

lemma lower_char_symbols [simp]:
  "lower_char CHR '';'' = CHR '';''" "lower_char CHR '')'' = CHR '')''"
  by (simp_all add: lower_char_def)

lemma lit_symbol_matches [simp]:
  "atom_matches fl (Lit CHR '';'') c \<longleftrightarrow> c = CHR '';''"
  "atom_matches fl (Lit CHR '')'') c \<longleftrightarrow> c = CHR '')''"
  using lower_char_symbol [of c "CHR '';''"] lower_char_symbol [of c "CHR '')''"]
  by auto

lemma run_length_dot: "DOTALL \<in> fl \<Longrightarrow> run_length fl Dot s = length s"
  by (induction s) simp_all

lemma body_close_fails:
  assumes "CHR '';'' \<notin> set body" "j < length body"
  shows "match_here fl [GroupClose, One (Lit CHR '')''), One (Lit CHR '';'')] (s0 # opens) caps
           (drop j (body @ CHR '')'' # CHR '';'' # rest)) = None"
proof -
  from assms(2) have d: "drop j (body @ CHR '')'' # CHR '';'' # rest)
      = body ! j # drop (Suc j) body @ CHR '')'' # CHR '';'' # rest"
    by (simp add: Cons_nth_drop_Suc)
  have "set (drop (Suc j) body) \<subseteq> set body" by (rule set_drop_subset)
  with assms(1) have "CHR '';'' \<notin> set (drop (Suc j) body)" by blast
  then show ?thesis
    unfolding d by (cases "drop (Suc j) body") (auto simp del: atom_matches.simps(1))
qed

lemma lazy_body:
  assumes "DOTALL \<in> fl" "CHR '';'' \<notin> set body"
  shows "match_here fl [GroupOpen, LazyStar Dot, GroupClose, One (Lit CHR '')''), One (Lit CHR '';'')]
           opens caps (body @ CHR '')'' # CHR '';'' # rest) = Some (caps @ [body], rest)"
proof -
  let ?s = "body @ CHR '')'' # CHR '';'' # rest"
  let ?f = "\<lambda>k. match_here fl [GroupClose, One (Lit CHR '')''), One (Lit CHR '';'')]
              (?s # opens) caps (drop k ?s)"
  have "try_each ?f [0..<Suc (length ?s)] = Some (caps @ [body], rest)"
  proof (rule try_each_first [where k = "length body"])
    show "length body < Suc (length ?s)" by simp
  next
    fix j assume "j < length body"
    with assms(2) show "?f j = None" by (rule body_close_fails)
  next
    show "?f (length body) = Some (caps @ [body], rest)" by simp
  qed
  then show ?thesis
    by (simp only: match_here.simps run_length_dot [OF assms(1)])
qed

lemma create_table_prefix:
  assumes [simp]: "is_identifier name" and [simp]: "match_here fl p [] [name] s = Some m"
  shows "match_here fl
           (lits ''CREATE'' @ [Plus Space] @ lits ''TABLE'' @ [Plus Space]
            @ [GroupOpen, Plus Word, GroupClose] @ [Star Space] @ lits ''('' @ p) [] []
           (''CREATE TABLE '' @ name @ '' ('' @ s) = Some m"
  by (simp add: lits_def is_space_def)

lemma create_table_match:
  assumes "is_identifier name" "CHR '';'' \<notin> set body"
  shows "match_here {IGNORECASE, DOTALL} create_table_pattern [] []
           (''CREATE TABLE '' @ name @ '' ('' @ body @ '');'' @ rest) = Some ([name, body], rest)"
proof -
  have "match_here {IGNORECASE, DOTALL}
          [GroupOpen, LazyStar Dot, GroupClose, One (Lit CHR '')''), One (Lit CHR '';'')] [] [name]
          (body @ CHR '')'' # CHR '';'' # rest) = Some ([name] @ [body], rest)"
    by (rule lazy_body) (simp_all add: assms(2))
  then have "match_here {IGNORECASE, DOTALL}
          ([GroupOpen, LazyStar Dot, GroupClose] @ lits '');'') [] [name]
          (body @ '');'' @ rest) = Some ([name, body], rest)"
    by (simp add: lits_def)
  from create_table_prefix [OF assms(1) this] show ?thesis
    by (simp add: create_table_pattern_def)
qed

lemma re_finditer_Nil: "re_finditer {IGNORECASE, DOTALL} create_table_pattern [] = []"
  by (simp add: re_finditer.simps [of _ _ "[]"] re_search_def create_table_pattern_def lits_def)

lemma single_statement_matches:
  assumes "is_identifier name" "CHR '';'' \<notin> set body"
  shows "re_finditer {IGNORECASE, DOTALL} create_table_pattern
           (''CREATE TABLE '' @ name @ '' ('' @ body @ '');'') = [([name, body], [])]"
proof -
  let ?s = "''CREATE TABLE '' @ name @ '' ('' @ body @ '');''"
  have "match_here {IGNORECASE, DOTALL} create_table_pattern [] [] (?s @ []) = Some ([name, body], [])"
    using create_table_match [OF assms, of "[]"] by simp
  then have "re_search {IGNORECASE, DOTALL} create_table_pattern ?s = Some ([name, body], [])"
    by (intro re_search_at_start) simp
  moreover have "re_finditer {IGNORECASE, DOTALL} create_table_pattern ?s =
     (case re_search {IGNORECASE, DOTALL} create_table_pattern ?s of
        None \<Rightarrow> []
      | Some m \<Rightarrow> m # (if length (snd m) < length ?s
                       then re_finditer {IGNORECASE, DOTALL} create_table_pattern (snd m) else []))"
    by (rule re_finditer.simps)
  ultimately show ?thesis
    by (simp add: re_finditer_Nil)
qed

lemma single_statement:
  assumes "is_identifier name" "CHR '';'' \<notin> set body"
  shows "parse_sql_schema (''CREATE TABLE '' @ name @ '' ('' @ body @ '');'')
     = for_each (parse_col_def name) (map strip (split_on CHR '','' body))
         (PDict [(PStr name, table_info [] PNone [])])"
  unfolding parse_sql_schema_def single_statement_matches [OF assms]
  by (simp add: parse_table_def match_group_def setitem_def split: sum.splits)

section \<open>The example of the specification\<close>

lemma split_on_no_sep:
  assumes "sep \<notin> set w" shows "split_on sep w = [w]"
proof -
  have "dropWhile (\<lambda>c. c \<noteq> sep) w = []" using assms by (induction w) auto
  then show ?thesis by (simp only: split_on.simps [of sep w] list.case)
qed

lemma split_on_append:
  assumes "sep \<notin> set w"
  shows "split_on sep (w @ sep # r) = w # split_on sep r"
proof -
  have d: "dropWhile (\<lambda>c. c \<noteq> sep) (w @ sep # r) = sep # r"
    using assms by (induction w) auto
  have t: "takeWhile (\<lambda>c. c \<noteq> sep) (w @ sep # r) = w"
    using assms by (induction w) auto
  show ?thesis by (simp only: split_on.simps [of sep "w @ sep # r"] d t list.case)
qed

lemma strip_leading_space: "is_space c \<Longrightarrow> strip (c # s) = strip s"
  by (simp add: strip_def)

lemma word_not_separator: "is_word c \<Longrightarrow> c \<noteq> CHR '','' \<and> c \<noteq> CHR '';''"
  by (auto simp: is_word_def)

lemma identifier_no_separator:
  assumes "is_identifier x"
  shows "CHR '','' \<notin> set x" "CHR '';'' \<notin> set x" "list_all (\<lambda>ch. \<not> is_space ch) x"
    "\<not> is_space (hd x)"
  using assms
  by (cases x; auto simp: is_identifier_def list_all_iff dest: word_not_separator word_not_space)+

lemma upper_char_word: "is_word c \<Longrightarrow> 32 \<notin> set (upper_char c)"
  by (auto simp: is_word_def upper_char_def Let_def split: if_splits)

lemma py_upper_append [simp]: "py_upper (x @ y) = py_upper x @ py_upper y"
  by (simp add: py_upper_def)

lemma py_upper_identifier: "is_identifier x \<Longrightarrow> 32 \<notin> set (py_upper x)"
  by (auto simp: is_identifier_def py_upper_def list_all_iff dest: upper_char_word)

lemma startswithD: "startswith s p \<Longrightarrow> \<exists>r. s = p @ r"
  by (metis append_take_drop_id startswith_def)

lemma first_split_unique:
  "a \<notin> set xs \<Longrightarrow> a \<notin> set ys \<Longrightarrow> xs @ a # xs' = ys @ a # ys' \<Longrightarrow> xs' = ys'"
proof (induction xs arbitrary: ys)
  case Nil
  then show ?case by (cases ys) auto
next
  case (Cons x xs)
  then show ?case by (cases ys) auto
qed

lemma keyword_code_points:
  "code_points ''PRIMARY KEY'' = [80, 82, 73, 77, 65, 82, 89] @ 32 # [75, 69, 89]"
  "code_points ''FOREIGN KEY'' = [70, 79, 82, 69, 73, 71, 78] @ 32 # [75, 69, 89]"
  by (simp_all add: code_points_def)

lemma name_space_not_keyword:
  assumes "32 \<notin> set u" "32 \<notin> set k" "\<not> startswith v [75, 69, 89]"
  shows "\<not> startswith (u @ 32 # v) (k @ 32 # [75, 69, 89])"
proof
  assume "startswith (u @ 32 # v) (k @ 32 # [75, 69, 89])"
  then obtain q where "u @ 32 # v = (k @ 32 # [75, 69, 89]) @ q"
    by (blast dest: startswithD)
  then have "u @ 32 # v = k @ 32 # ([75, 69, 89] @ q)"
    by (simp only: append_assoc append_Cons)
  with assms(1,2) have "v = [75, 69, 89] @ q"
    by (rule first_split_unique)
  with assms(3) show False
    by (simp add: startswith_def)
qed

lemma column_not_key_clause:
  assumes "is_identifier n" "\<not> startswith (py_upper r) [75, 69, 89]"
  shows "\<not> startswith (py_upper (n @ CHR '' '' # r)) (code_points ''PRIMARY KEY'')"
    and "\<not> startswith (py_upper (n @ CHR '' '' # r)) (code_points ''FOREIGN KEY'')"
proof -
  have u: "py_upper (n @ CHR '' '' # r) = py_upper n @ 32 # py_upper r" by simp
  note n = py_upper_identifier [OF assms(1)]
  show "\<not> startswith (py_upper (n @ CHR '' '' # r)) (code_points ''PRIMARY KEY'')"
    unfolding u keyword_code_points
    by (rule name_space_not_keyword [OF n _ assms(2)]) simp
  show "\<not> startswith (py_upper (n @ CHR '' '' # r)) (code_points ''FOREIGN KEY'')"
    unfolding u keyword_code_points
    by (rule name_space_not_keyword [OF n _ assms(2)]) simp
qed

lemma column_step:
  assumes look: "map_of tables (PStr t) = Some (table_info columns pk fks)"
    and "is_identifier n" "\<not> startswith (py_upper ty) [75, 69, 89]"
    and "ty \<noteq> []" "\<not> is_space (hd ty)" "\<not> is_space (last ty)"
  shows "parse_col_def t (PDict tables) (n @ CHR '' '' # ty)
           = Inr (PDict (AList.update (PStr t)
                   (table_info (AList.update (PStr n) (PStr ty) columns) pk fks) tables))"
proof -
  define c where "c = n @ CHR '' '' # ty"
  have s: "strip c = c"
    unfolding c_def using assms(2,4,6) identifier_no_separator(4) [OF assms(2)]
    by (intro strip_unchanged) (simp_all add: is_identifier_def hd_append)
  have nk: "\<not> startswith (py_upper c) (code_points ''PRIMARY KEY'')"
    "\<not> startswith (py_upper c) (code_points ''FOREIGN KEY'')"
    unfolding c_def by (rule column_not_key_clause [OF assms(2,3)])+
  have "split_ws1 (n @ [CHR '' ''] @ ty) = [n, ty]"
    using assms(2,4,5) identifier_no_separator(3) [OF assms(2)]
    by (intro split_ws1_two) (simp_all add: is_identifier_def)
  then have sp: "split_ws1 c = [n, ty]" by (simp add: c_def)
  have "parse_col_def t (PDict tables) c
           = Inr (PDict (AList.update (PStr t)
                   (table_info (AList.update (PStr n) (PStr ty) columns) pk fks) tables))"
    by (simp add: parse_col_def_def s nk sp set_column_eq [OF look])
  then show ?thesis by (simp only: c_def)
qed

lemma primary_key_step:
  assumes look: "map_of tables (PStr t) = Some (table_info columns pk fks)"
    and "is_identifier x"
  shows "parse_col_def t (PDict tables) (''PRIMARY KEY('' @ x @ '')'')
           = Inr (PDict (AList.update (PStr t) (table_info columns (PStr x) fks) tables))"
proof -
  define c where "c = ''PRIMARY KEY('' @ x @ '')''"
  have "strip c = c"
    unfolding c_def by (rule strip_unchanged) simp_all
  moreover have "re_search {IGNORECASE} primary_key_pattern c = Some ([x], [])"
    unfolding c_def by (rule re_search_at_start) (rule primary_key_match [OF assms(2)])
  moreover have "startswith (py_upper c) (code_points ''PRIMARY KEY'')"
    unfolding c_def by (simp add: startswith_def code_points_def)
  ultimately have "parse_col_def t (PDict tables) c
           = Inr (PDict (AList.update (PStr t) (table_info columns (PStr x) fks) tables))"
    by (simp add: parse_col_def_def match_group_def set_field_primary_key [OF look])
  then show ?thesis by (simp only: c_def)
qed

text \<open>
  C1: for identifiers \<open>t\<close>, \<open>a\<close> and \<open>b\<close>, the extractor on the text
  \<open>CREATE TABLE t (a INT, b VARCHAR(10), PRIMARY KEY(a));\<close> gives one table \<open>t\<close> with the
  columns \<open>a: INT\<close> and \<open>b: VARCHAR(10)\<close>, the primary key \<open>a\<close> and no foreign key.
\<close>

theorem parse_example:
  assumes "is_identifier t" "is_identifier a" "is_identifier b" "a \<noteq> b"
  shows "parse_sql_schema
           (''CREATE TABLE '' @ t @ '' ('' @ a @ '' INT, '' @ b @ '' VARCHAR(10), PRIMARY KEY('' @ a @ ''));'')
     = Inr (PDict [(PStr t,
              table_info [(PStr a, PStr ''INT''), (PStr b, PStr ''VARCHAR(10)'')] (PStr a) [])])"
proof -
  define body where "body = a @ '' INT, '' @ b @ '' VARCHAR(10), PRIMARY KEY('' @ a @ '')''"
  note sa = identifier_no_separator [OF assms(2)]
  note sb = identifier_no_separator [OF assms(3)]
  have input: "''CREATE TABLE '' @ t @ '' ('' @ a @ '' INT, '' @ b @ '' VARCHAR(10), PRIMARY KEY('' @ a @ ''));''
      = ''CREATE TABLE '' @ t @ '' ('' @ body @ '');''"
    by (simp add: body_def)
  have semi: "CHR '';'' \<notin> set body"
    using sa(2) sb(2) by (simp add: body_def)
  have "split_on CHR '','' body
      = (a @ '' INT'') # split_on CHR '','' ('' '' @ b @ '' VARCHAR(10), PRIMARY KEY('' @ a @ '')'')"
    using split_on_append [of "CHR '',''" "a @ '' INT''"
        "'' '' @ b @ '' VARCHAR(10), PRIMARY KEY('' @ a @ '')''"] sa(1)
    by (simp add: body_def)
  also have "split_on CHR '','' ('' '' @ b @ '' VARCHAR(10), PRIMARY KEY('' @ a @ '')'')
      = ('' '' @ b @ '' VARCHAR(10)'') # split_on CHR '','' ('' PRIMARY KEY('' @ a @ '')'')"
    using split_on_append [of "CHR '',''" "'' '' @ b @ '' VARCHAR(10)''"
        "'' PRIMARY KEY('' @ a @ '')''"] sb(1)
    by simp
  also have "split_on CHR '','' ('' PRIMARY KEY('' @ a @ '')'') = ['' PRIMARY KEY('' @ a @ '')'']"
    using sa(1) by (intro split_on_no_sep) simp
  finally have clauses: "split_on CHR '','' body
      = [a @ '' INT'', '' '' @ b @ '' VARCHAR(10)'', '' PRIMARY KEY('' @ a @ '')'']" .
  have nsp: "\<not> is_space CHR ''T''" "\<not> is_space CHR ''I''" "\<not> is_space CHR ''V''"
    by (simp_all add: is_space_def)
  have s1: "strip (a @ '' INT'') = a @ '' INT''"
    using assms(2) sa(4) nsp by (intro strip_unchanged) (simp_all add: is_identifier_def hd_append)
  have s2: "strip ('' '' @ b @ '' VARCHAR(10)'') = b @ '' VARCHAR(10)''"
    using assms(3) sb(4)
    by (simp add: strip_leading_space)
       (intro strip_unchanged, simp_all add: is_identifier_def hd_append)
  have s3: "strip ('' PRIMARY KEY('' @ a @ '')'') = ''PRIMARY KEY('' @ a @ '')''"
    by (simp add: strip_leading_space) (intro strip_unchanged, simp_all)
  have stripped: "map strip (split_on CHR '','' body)
      = [a @ CHR '' '' # ''INT'', b @ CHR '' '' # ''VARCHAR(10)'', ''PRIMARY KEY('' @ a @ '')'']"
    using s1 s2 s3 by (simp add: clauses)
  have step1: "parse_col_def t (PDict [(PStr t, table_info [] PNone [])]) (a @ CHR '' '' # ''INT'')
      = Inr (PDict [(PStr t, table_info [(PStr a, PStr ''INT'')] PNone [])])"
    using column_step [of "[(PStr t, table_info [] PNone [])]" t "[]" PNone "[]" a "''INT''"] assms(2) nsp
    by (simp add: startswith_def upper_char_def)
  have step2: "parse_col_def t (PDict [(PStr t, table_info [(PStr a, PStr ''INT'')] PNone [])])
        (b @ CHR '' '' # ''VARCHAR(10)'')
      = Inr (PDict [(PStr t,
               table_info [(PStr a, PStr ''INT''), (PStr b, PStr ''VARCHAR(10)'')] PNone [])])"
    using column_step [of "[(PStr t, table_info [(PStr a, PStr ''INT'')] PNone [])]" t
        "[(PStr a, PStr ''INT'')]" PNone "[]" b "''VARCHAR(10)''"] assms(3,4) nsp
    by (simp add: startswith_def upper_char_def)
  have step3: "parse_col_def t
        (PDict [(PStr t, table_info [(PStr a, PStr ''INT''), (PStr b, PStr ''VARCHAR(10)'')] PNone [])])
        (''PRIMARY KEY('' @ a @ '')'')
      = Inr (PDict [(PStr t,
               table_info [(PStr a, PStr ''INT''), (PStr b, PStr ''VARCHAR(10)'')] (PStr a) [])])"
    using primary_key_step
      [of "[(PStr t, table_info [(PStr a, PStr ''INT''), (PStr b, PStr ''VARCHAR(10)'')] PNone [])]" t
        "[(PStr a, PStr ''INT''), (PStr b, PStr ''VARCHAR(10)'')]" PNone "[]" a] assms(2)
    by simp
  have "parse_sql_schema (''CREATE TABLE '' @ t @ '' ('' @ body @ '');'')
      = Inr (PDict [(PStr t,
               table_info [(PStr a, PStr ''INT''), (PStr b, PStr ''VARCHAR(10)'')] (PStr a) [])])"
    unfolding single_statement [OF assms(1) semi] stripped
    by (simp only: for_each.simps step1 step2 step3 sum.case)
  then show ?thesis by (simp only: input)
qed

theorem parse_example_witness:
  "is_identifier ''t'' \<and> is_identifier ''a'' \<and> is_identifier ''b'' \<and> ''a'' \<noteq> ''b''
   \<and> parse_sql_schema ''CREATE TABLE t (a INT, b VARCHAR(10), PRIMARY KEY(a));''
     = Inr (PDict [(PStr ''t'',
              table_info [(PStr ''a'', PStr ''INT''), (PStr ''b'', PStr ''VARCHAR(10)'')]
                (PStr ''a'') [])])"
proof -
  have ids: "is_identifier ''t''" "is_identifier ''a''" "is_identifier ''b''"
    by code_simp+
  from parse_example [OF ids] ids show ?thesis by simp
qed

end
